theory Spec2Isabelle
  imports Main
begin

section \<open>Data model\<close>

subsection \<open>Expressions and fingerprints\<close>

text \<open>
  Modelled from the spec: the types \<open>memo.Expr\<close>, \<open>memo.Fingerprint\<close>,
  \<open>memo.GroupID\<close>, \<open>memo.ListID\<close>, \<open>memo.PrivateID\<close>, \<open>opt.Operator\<close> and
  \<open>opt.RuleName\<close>, which \<open>factory.go\<close> uses and which are declared in packages that
  are not in the sources. An expression is an operator tag, a handle to its interned
  operator data and the ordered list of its child groups; its fingerprint is the
  canonical encoding of exactly these. Of the operators only the ones that
  \<open>factory.go\<close> names are told apart.
\<close>

type_synonym GroupID = nat
type_synonym ListID = nat
type_synonym PrivateID = nat
type_synonym RuleName = nat
type_synonym ExprOrdinal = nat

datatype Operator = NullOp | TrueOp | FalseOp | ConstOp | PlaceholderOp | OtherOp nat

record Expr =
  op :: Operator
  privateID :: PrivateID
  children :: "GroupID list"

datatype Fingerprint = Fingerprint Operator PrivateID "GroupID list"

text \<open>Modelled from the spec: the fingerprint of an expression (\<open>Expr.Fingerprint\<close>).\<close>

definition fingerprint :: "Expr \<Rightarrow> Fingerprint" where
  "fingerprint e = Fingerprint (op e) (privateID e) (children e)"

subsection \<open>Go slices\<close>

text \<open>
  A Go slice is \<open>nil\<close>, or a window of \<open>len\<close> elements on a backing array of \<open>cap\<close>
  slots. The model keeps the visible elements and the capacity; the contents of the
  spare slots cannot be observed by the code modelled here (it never re-slices upwards).
\<close>

datatype 'a slice = NilSlice | Slice "'a list" nat

fun elems :: "'a slice \<Rightarrow> 'a list" where
  "elems NilSlice = []"
| "elems (Slice xs c) = xs"

fun cap :: "'a slice \<Rightarrow> nat" where
  "cap NilSlice = 0"
| "cap (Slice xs c) = c"

definition len :: "'a slice \<Rightarrow> nat" where
  "len s = length (elems s)"

text \<open>
  \<open>append(s, x)\<close>: when the backing array has a free slot the element is written there
  and the array is kept; otherwise a new array is allocated. Go only promises that the
  new array is large enough, so the runtime's growth policy is the parameter \<open>grow\<close>
  (from the old capacity to the proposed new one).
\<close>

fun append_slice :: "(nat \<Rightarrow> nat) \<Rightarrow> 'a slice \<Rightarrow> 'a \<Rightarrow> 'a slice" where
  "append_slice grow NilSlice x = Slice [x] (max 1 (grow 0))"
| "append_slice grow (Slice xs c) x =
     (if length xs < c then Slice (xs @ [x]) c
      else Slice (xs @ [x]) (max (Suc (length xs)) (grow c)))"

datatype fault = SliceBoundsOutOfRange | NilPointerDereference | CheckFailed GroupID
  | InvalidGroup GroupID | UnboundPlaceholder PrivateID

subsection \<open>The rule cycle guard (\<open>ruleCycles\<close>)\<close>

record ruleCycles =
  stack :: "Fingerprint slice"

text \<open>\<open>init\<close>: a non-nil stack is re-sliced to length zero, a nil stack is left alone.\<close>

definition ruleCycles_init :: "ruleCycles \<Rightarrow> ruleCycles" where
  "ruleCycles_init rc =
     (case stack rc of
        NilSlice \<Rightarrow> rc
      | Slice xs c \<Rightarrow> rc\<lparr>stack := Slice (take 0 xs) c\<rparr>)"

text \<open>The loop of \<open>detectCycle\<close> over the elements of the stack, first to last.\<close>

fun detectCycle_loop :: "Fingerprint list \<Rightarrow> Fingerprint \<Rightarrow> bool" where
  "detectCycle_loop [] f = False"
| "detectCycle_loop (existing # rest) f =
     (if existing = f then True else detectCycle_loop rest f)"

definition detectCycle :: "ruleCycles \<Rightarrow> Fingerprint \<Rightarrow> bool" where
  "detectCycle rc f = detectCycle_loop (elems (stack rc)) f"

definition push :: "(nat \<Rightarrow> nat) \<Rightarrow> ruleCycles \<Rightarrow> Fingerprint \<Rightarrow> ruleCycles" where
  "push grow rc f = rc\<lparr>stack := append_slice grow (stack rc) f\<rparr>"

text \<open>
  \<open>pop\<close>: \<open>rc.stack[:len(rc.stack)-1]\<close>. On an empty (or nil) stack the upper bound is
  \<open>-1\<close> and the slice expression panics; otherwise the backing array is kept.
\<close>

definition pop :: "ruleCycles \<Rightarrow> fault + ruleCycles" where
  "pop rc =
     (if len (stack rc) = 0 then Inl SliceBoundsOutOfRange
      else Inr (rc\<lparr>stack := Slice (take (len (stack rc) - 1) (elems (stack rc))) (cap (stack rc))\<rparr>))"

text \<open>
  Sequences of guard operations, for the balance discipline: \<open>run\<close> performs them in
  order and stops at the first panic; \<open>balanced d ops\<close> says that, with \<open>d\<close> pushes
  still unpopped, no \<open>Pop\<close> of \<open>ops\<close> comes without a matching unpopped push, and
  \<open>matched d ops\<close> that moreover every push has been popped at the end.
\<close>

datatype guardOp = Push Fingerprint | Pop

fun run :: "(nat \<Rightarrow> nat) \<Rightarrow> guardOp list \<Rightarrow> ruleCycles \<Rightarrow> fault + ruleCycles" where
  "run grow [] rc = Inr rc"
| "run grow (Push f # ops) rc = run grow ops (push grow rc f)"
| "run grow (Pop # ops) rc =
     (case pop rc of Inl flt \<Rightarrow> Inl flt | Inr rc' \<Rightarrow> run grow ops rc')"

fun balanced :: "nat \<Rightarrow> guardOp list \<Rightarrow> bool" where
  "balanced d [] = True"
| "balanced d (Push f # ops) = balanced (Suc d) ops"
| "balanced 0 (Pop # ops) = False"
| "balanced (Suc d) (Pop # ops) = balanced d ops"

fun matched :: "nat \<Rightarrow> guardOp list \<Rightarrow> bool" where
  "matched d [] = (d = 0)"
| "matched d (Push f # ops) = matched (Suc d) ops"
| "matched 0 (Pop # ops) = False"
| "matched (Suc d) (Pop # ops) = matched d ops"

subsection \<open>Intern tables\<close>

text \<open>
  Modelled from the spec: the intern tables of the memo (\<open>Memo.InternList\<close>,
  \<open>Memo.InternType\<close>, \<open>Memo.InternDatum\<close> are not in the sources). A table stores each
  payload once; the handle of a payload is its position, counted from 1. Interning an
  equal payload returns the existing handle, a new payload is stored at the end and
  gets the next handle.
\<close>

fun indexOf :: "'a \<Rightarrow> 'a list \<Rightarrow> nat option" where
  "indexOf p [] = None"
| "indexOf p (x # xs) = (if x = p then Some 0 else map_option Suc (indexOf p xs))"

definition intern :: "'a list \<Rightarrow> 'a \<Rightarrow> nat \<times> 'a list" where
  "intern tbl p =
     (case indexOf p tbl of
        Some i \<Rightarrow> (Suc i, tbl)
      | None \<Rightarrow> (Suc (length tbl), tbl @ [p]))"

definition payloadOf :: "'a list \<Rightarrow> nat \<Rightarrow> 'a option" where
  "payloadOf tbl h = (if 0 < h \<and> h \<le> length tbl then Some (tbl ! (h - 1)) else None)"

text \<open>Any number of further payloads interned into a table.\<close>

fun internAll :: "'a list \<Rightarrow> 'a list \<Rightarrow> 'a list" where
  "internAll tbl [] = tbl"
| "internAll tbl (p # ps) = internAll (snd (intern tbl p)) ps"

subsection \<open>Datums, types and operator data\<close>

text \<open>
  \<open>tree.Datum\<close> is an interface declared outside the sources; \<open>factory.go\<close> tells
  apart the null datum \<open>tree.DNull\<close>, the booleans \<open>*tree.DBool\<close> and everything
  else, which is the parameter \<open>'d\<close> (a nil interface value is among these: it is not
  \<open>DNull\<close> and fails the type assertion). A \<open>*tree.DBool\<close> is a pointer to a boolean:
  \<open>DBool (Some b)\<close> points to \<open>b\<close> and \<open>DBool None\<close> is the nil pointer of that type,
  which an interface value can hold. Of \<open>types\<close> only \<open>types.Unknown\<close> is used.
  The operator data stored in the memo are types, datums, placeholders and other blocks.
\<close>

datatype 'd Datum = DNull | DBool "bool option" | DOther 'd

datatype Type = Unknown | OtherType nat

datatype 'd Private = TypePrivate Type | DatumPrivate "'d Datum" | PlaceholderPrivate nat
  | OtherPrivate nat

record 'd EvalContext =
  placeholders :: "(nat \<times> 'd Datum) list"

subsection \<open>The memo\<close>

text \<open>
  Modelled from the spec: the memo (package \<open>memo\<close> is not in the sources). Groups live
  in an arena and are numbered from 1; the first member of a group is its canonical
  (normalized) expression and the logical properties are derived from it when the group
  is created. The fingerprint index maps the fingerprints of canonical members to their
  groups. The root is a group id (0 before it is set) and the root's properties, a
  reference that is nil (\<open>None\<close>) before it is set.
\<close>

record 'p Group =
  exprs :: "Expr list"
  logical :: 'p

record ('d, 'p) Memo =
  groups :: "'p Group list"
  exprMap :: "(Fingerprint \<times> GroupID) list"
  listStorage :: "GroupID list list"
  privateStorage :: "'d Private list"
  rootGroup :: GroupID
  rootProps :: "'p option"

record ('d, 'p) ExprView =
  ev_mem :: "('d, 'p) Memo"
  ev_group :: GroupID

definition Memo_Init :: "('d, 'p) Memo" where
  "Memo_Init = \<lparr>groups = [], exprMap = [], listStorage = [], privateStorage = [],
     rootGroup = 0, rootProps = None\<rparr>"

definition Memo_InternList :: "('d, 'p) Memo \<Rightarrow> GroupID list \<Rightarrow> ListID \<times> ('d, 'p) Memo" where
  "Memo_InternList m items =
     (let (h, tbl) = intern (listStorage m) items in (h, m\<lparr>listStorage := tbl\<rparr>))"

definition Memo_InternPrivate ::
  "('d, 'p) Memo \<Rightarrow> 'd Private \<Rightarrow> PrivateID \<times> ('d, 'p) Memo" where
  "Memo_InternPrivate m p =
     (let (h, tbl) = intern (privateStorage m) p in (h, m\<lparr>privateStorage := tbl\<rparr>))"

definition GroupByFingerprint :: "('d, 'p) Memo \<Rightarrow> Fingerprint \<Rightarrow> GroupID option" where
  "GroupByFingerprint m fp = map_of (exprMap m) fp"

definition GroupCount :: "('d, 'p) Memo \<Rightarrow> nat" where
  "GroupCount m = length (groups m)"

definition groupAt :: "('d, 'p) Memo \<Rightarrow> GroupID \<Rightarrow> 'p Group option" where
  "groupAt m g = (if 0 < g \<and> g \<le> length (groups m) then Some (groups m ! (g - 1)) else None)"

definition NormExpr :: "('d, 'p) Memo \<Rightarrow> GroupID \<Rightarrow> Expr option" where
  "NormExpr m g =
     (case groupAt m g of
        None \<Rightarrow> None
      | Some grp \<Rightarrow> (case exprs grp of [] \<Rightarrow> None | e # es \<Rightarrow> Some e))"

definition Properties :: "('d, 'p) Memo \<Rightarrow> GroupID \<Rightarrow> fault + 'p" where
  "Properties m g =
     (case groupAt m g of None \<Rightarrow> Inl (InvalidGroup g) | Some grp \<Rightarrow> Inr (logical grp))"

text \<open>
  Modelled from the spec: \<open>Memo.MemoizeNormExpr\<close>, the spec's \<open>MemoizeExpression\<close>
  (not in the sources). A fingerprint hit returns the existing group and discards the
  candidate; a miss allocates a group with the candidate as its only member, derives its
  logical properties (\<open>buildProps\<close>, the external property builder) and registers the
  fingerprint.
\<close>

definition MemoizeNormExpr ::
  "('d EvalContext \<Rightarrow> ('d, 'p) Memo \<Rightarrow> Expr \<Rightarrow> 'p) \<Rightarrow> 'd EvalContext \<Rightarrow> ('d, 'p) Memo \<Rightarrow> Expr
     \<Rightarrow> ('d, 'p) ExprView" where
  "MemoizeNormExpr buildProps ctx m e =
     (case GroupByFingerprint m (fingerprint e) of
        Some g \<Rightarrow> \<lparr>ev_mem = m, ev_group = g\<rparr>
      | None \<Rightarrow>
          (let g = Suc (length (groups m));
               grp = \<lparr>exprs = [e], logical = buildProps ctx m e\<rparr>
           in \<lparr>ev_mem = m\<lparr>groups := groups m @ [grp],
                             exprMap := (fingerprint e, g) # exprMap m\<rparr>,
                ev_group = g\<rparr>))"

text \<open>
  Modelled from the spec: \<open>Memo.SetRoot\<close>, \<open>Memo.RootGroup\<close> and \<open>Memo.RootProps\<close>
  (not in the sources), which record and return the root of the memo.
\<close>

definition SetRoot :: "('d, 'p) Memo \<Rightarrow> GroupID \<Rightarrow> 'p option \<Rightarrow> ('d, 'p) Memo" where
  "SetRoot m g props = m\<lparr>rootGroup := g, rootProps := props\<rparr>"

definition RootGroup :: "('d, 'p) Memo \<Rightarrow> GroupID" where
  "RootGroup m = rootGroup m"

definition RootProps :: "('d, 'p) Memo \<Rightarrow> 'p option" where
  "RootProps m = rootProps m"

subsection \<open>The factory\<close>

text \<open>
  The callbacks are Go function values and may have effects outside the factory; the
  state they act on is the observer state \<open>'o\<close>, threaded through every call. A nil
  callback is \<open>None\<close>. Of the fields of \<open>Factory\<close>, \<open>funcs\<close> (a back reference for the
  custom rule functions) and the two scratch buffers are not read or written by the
  functions below and are left out.
\<close>

type_synonym 'o MatchedRuleFunc = "RuleName \<Rightarrow> 'o \<Rightarrow> bool \<times> 'o"

type_synonym 'o AppliedRuleFunc = "RuleName \<Rightarrow> GroupID \<Rightarrow> ExprOrdinal \<Rightarrow> int \<Rightarrow> 'o \<Rightarrow> 'o"

record ('d, 'p, 'o) Factory =
  evalCtx :: "'d EvalContext"
  mem :: "('d, 'p) Memo"
  matchedRule :: "'o MatchedRuleFunc option"
  appliedRule :: "'o AppliedRuleFunc option"
  ruleCycles :: ruleCycles

datatype 'a outcome = Ok 'a | Panic fault

text \<open>
  Modelled from the spec: the rules of the external catalog, as the factory sees them.
  What a normalization rule hands back when it matches is the construction of its
  replacement, a tree of nested \<open>Construct\<close> calls over existing groups, each with the
  operator data to intern (if any).
\<close>

datatype 'd Replacement = Existing GroupID
  | Build Operator "'d Private option" "'d Replacement list"

record ('d, 'p) Rule =
  ruleName :: RuleName
  detectCycles :: bool
  matchRule :: "('d, 'p) Memo \<Rightarrow> Expr \<Rightarrow> 'd Replacement option"

text \<open>
  Everything the factory uses and the sources do not contain: the build flag
  \<open>util.RaceEnabled\<close>, the consistency check \<open>checkExpr\<close> (\<open>None\<close> when it passes, the
  fault it panics with otherwise), the logical property builder, the rule catalog in its
  priority order per operator, and the growth policy of Go's \<open>append\<close>.
\<close>

record ('d, 'p) Env =
  RaceEnabled :: bool
  checkExpr :: "('d, 'p) ExprView \<Rightarrow> fault option"
  buildProps :: "'d EvalContext \<Rightarrow> ('d, 'p) Memo \<Rightarrow> Expr \<Rightarrow> 'p"
  rules :: "Operator \<Rightarrow> ('d, 'p) Rule list"
  growslice :: "nat \<Rightarrow> nat"

definition Init :: "('d, 'p, 'o) Factory \<Rightarrow> 'd EvalContext \<Rightarrow> ('d, 'p, 'o) Factory" where
  "Init f ctx =
     f\<lparr>evalCtx := ctx, mem := Memo_Init, matchedRule := None, appliedRule := None,
       ruleCycles := ruleCycles_init (ruleCycles f)\<rparr>"

definition NotifyOnMatchedRule ::
  "('d, 'p, 'o) Factory \<Rightarrow> 'o MatchedRuleFunc option \<Rightarrow> ('d, 'p, 'o) Factory" where
  "NotifyOnMatchedRule f cb = f\<lparr>matchedRule := cb\<rparr>"


definition DisableOptimizations :: "('d, 'p, 'o) Factory \<Rightarrow> ('d, 'p, 'o) Factory" where
  "DisableOptimizations f = NotifyOnMatchedRule f (Some (\<lambda>name w. (False, w)))"

definition InternList ::
  "('d, 'p, 'o) Factory \<Rightarrow> GroupID list \<Rightarrow> ListID \<times> ('d, 'p, 'o) Factory" where
  "InternList f items = (let (h, m) = Memo_InternList (mem f) items in (h, f\<lparr>mem := m\<rparr>))"

definition InternType ::
  "('d, 'p, 'o) Factory \<Rightarrow> Type \<Rightarrow> PrivateID \<times> ('d, 'p, 'o) Factory" where
  "InternType f t =
     (let (h, m) = Memo_InternPrivate (mem f) (TypePrivate t) in (h, f\<lparr>mem := m\<rparr>))"

definition InternDatum ::
  "('d, 'p, 'o) Factory \<Rightarrow> 'd Datum \<Rightarrow> PrivateID \<times> ('d, 'p, 'o) Factory" where
  "InternDatum f d =
     (let (h, m) = Memo_InternPrivate (mem f) (DatumPrivate d) in (h, f\<lparr>mem := m\<rparr>))"

text \<open>
  \<open>onConstruct\<close>: memoize the expression, run the consistency check when the build is
  race-enabled (a failed check panics, with the memo already updated), return the group.
\<close>

definition onConstruct ::
  "('d, 'p) Env \<Rightarrow> ('d, 'p, 'o) Factory \<Rightarrow> Expr \<Rightarrow> GroupID outcome \<times> ('d, 'p, 'o) Factory" where
  "onConstruct env f e =
     (let ev = MemoizeNormExpr (buildProps env) (evalCtx f) (mem f) e;
          f' = f\<lparr>mem := ev_mem ev\<rparr>
      in if RaceEnabled env then
           (case checkExpr env ev of
              Some flt \<Rightarrow> (Panic flt, f')
            | None \<Rightarrow> (Ok (ev_group ev), f'))
         else (Ok (ev_group ev), f'))"

subsection \<open>The construction protocol\<close>

text \<open>
  Modelled from the spec: the generated construction methods (\<open>factory.og.go\<close> is not
  in the sources), after the specification's construction and normalization protocol.
  \<open>selectRule\<close> goes through the candidate rules of the operator in priority order and
  returns the first one that applies: a rule is skipped when the installed
  \<open>matchedRule\<close> callback returns false for its name, when it does not match, or when
  it is tagged for cycle detection and the fingerprint of the expression is on the stack.
\<close>

fun selectRule ::
  "('d, 'p) Rule list \<Rightarrow> ('d, 'p, 'o) Factory \<Rightarrow> 'o \<Rightarrow> Expr
     \<Rightarrow> (('d, 'p) Rule \<times> 'd Replacement) option \<times> 'o" where
  "selectRule [] f w e = (None, w)"
| "selectRule (r # rs) f w e =
     (case (case matchedRule f of None \<Rightarrow> (True, w) | Some cb \<Rightarrow> cb (ruleName r) w) of
        (enabled, w1) \<Rightarrow>
          if \<not> enabled then selectRule rs f w1 e
          else (case matchRule r (mem f) e of
                  None \<Rightarrow> selectRule rs f w1 e
                | Some repl \<Rightarrow>
                    if detectCycles r \<and> detectCycle (ruleCycles f) (fingerprint e)
                    then selectRule rs f w1 e
                    else (Some (r, repl), w1)))"

definition internPayload ::
  "('d, 'p, 'o) Factory \<Rightarrow> 'd Private option \<Rightarrow> PrivateID \<times> ('d, 'p, 'o) Factory" where
  "internPayload f payload =
     (case payload of
        None \<Rightarrow> (0, f)
      | Some p \<Rightarrow> (let (h, m) = Memo_InternPrivate (mem f) p in (h, f\<lparr>mem := m\<rparr>)))"

text \<open>
  Modelled from the spec: the last steps of a rule application (steps 6 and 7 of the
  protocol, in the generated code). The \<open>appliedRule\<close> callback, if installed, is
  told the rule and the group (for a normalization rule the ordinal and the count of
  added expressions are 0), then the consistency hook runs in the checked build.
\<close>

definition afterRule ::
  "('d, 'p) Env \<Rightarrow> ('d, 'p) Rule \<Rightarrow> ('d, 'p, 'o) Factory \<Rightarrow> 'o \<Rightarrow> GroupID
     \<Rightarrow> GroupID outcome \<times> ('d, 'p, 'o) Factory \<times> 'o" where
  "afterRule env r f w g =
     (let w' = (case appliedRule f of None \<Rightarrow> w | Some cb \<Rightarrow> cb (ruleName r) g 0 0 w)
      in if RaceEnabled env then
           (case checkExpr env \<lparr>ev_mem = mem f, ev_group = g\<rparr> of
              Some flt \<Rightarrow> (Panic flt, f, w')
            | None \<Rightarrow> (Ok g, f, w'))
         else (Ok g, f, w'))"

text \<open>
  Modelled from the spec: \<open>Construct\<close>, the protocol itself (the generated
  construction methods are not in the sources). Rules may rewrite without end, so the recursion
  carries fuel, one unit per call, and \<open>None\<close> stands for a construction that does
  not return. A rule tagged for cycle detection has the fingerprint of the expression
  pushed before its replacement is built and popped afterwards, whether the replacement
  was built or panicked.
\<close>

fun Construct ::
  "nat \<Rightarrow> ('d, 'p) Env \<Rightarrow> ('d, 'p, 'o) Factory \<Rightarrow> 'o \<Rightarrow> Expr
     \<Rightarrow> (GroupID outcome \<times> ('d, 'p, 'o) Factory \<times> 'o) option"
and build ::
  "nat \<Rightarrow> ('d, 'p) Env \<Rightarrow> ('d, 'p, 'o) Factory \<Rightarrow> 'o \<Rightarrow> 'd Replacement
     \<Rightarrow> (GroupID outcome \<times> ('d, 'p, 'o) Factory \<times> 'o) option"
and buildList ::
  "nat \<Rightarrow> ('d, 'p) Env \<Rightarrow> ('d, 'p, 'o) Factory \<Rightarrow> 'o \<Rightarrow> 'd Replacement list
     \<Rightarrow> (GroupID list outcome \<times> ('d, 'p, 'o) Factory \<times> 'o) option"
where
  "Construct 0 env f w e = None"
| "Construct (Suc n) env f w e =
     (case selectRule (rules env (op e)) f w e of
        (None, w1) \<Rightarrow>
          (case onConstruct env f e of (res, f1) \<Rightarrow> Some (res, f1, w1))
      | (Some (r, repl), w1) \<Rightarrow>
          if detectCycles r then
            (case build n env (f\<lparr>ruleCycles := push (growslice env) (ruleCycles f) (fingerprint e)\<rparr>)
                    w1 repl of
               None \<Rightarrow> None
             | Some (res, f2, w2) \<Rightarrow>
                 (case pop (ruleCycles f2) of
                    Inl flt \<Rightarrow> Some (Panic flt, f2, w2)
                  | Inr rc \<Rightarrow>
                      (case res of
                         Panic flt \<Rightarrow> Some (Panic flt, f2\<lparr>ruleCycles := rc\<rparr>, w2)
                       | Ok g \<Rightarrow> Some (afterRule env r (f2\<lparr>ruleCycles := rc\<rparr>) w2 g))))
          else
            (case build n env f w1 repl of
               None \<Rightarrow> None
             | Some (Panic flt, f2, w2) \<Rightarrow> Some (Panic flt, f2, w2)
             | Some (Ok g, f2, w2) \<Rightarrow> Some (afterRule env r f2 w2 g)))"
| "build 0 env f w repl = None"
| "build (Suc n) env f w (Existing g) = Some (Ok g, f, w)"
| "build (Suc n) env f w (Build opr payload rs) =
     (case buildList n env f w rs of
        None \<Rightarrow> None
      | Some (Panic flt, f1, w1) \<Rightarrow> Some (Panic flt, f1, w1)
      | Some (Ok gs, f1, w1) \<Rightarrow>
          (case internPayload f1 payload of
             (h, f2) \<Rightarrow> Construct n env f2 w1 \<lparr>op = opr, privateID = h, children = gs\<rparr>))"
| "buildList 0 env f w rs = None"
| "buildList (Suc n) env f w [] = Some (Ok [], f, w)"
| "buildList (Suc n) env f w (r # rs) =
     (case build n env f w r of
        None \<Rightarrow> None
      | Some (Panic flt, f1, w1) \<Rightarrow> Some (Panic flt, f1, w1)
      | Some (Ok g, f1, w1) \<Rightarrow>
          (case buildList n env f1 w1 rs of
             None \<Rightarrow> None
           | Some (Panic flt, f2, w2) \<Rightarrow> Some (Panic flt, f2, w2)
           | Some (Ok gs, f2, w2) \<Rightarrow> Some (Ok (g # gs), f2, w2)))"

text \<open>
  Modelled from the spec: the generated methods \<open>ConstructNull\<close>, \<open>ConstructTrue\<close>,
  \<open>ConstructFalse\<close> and \<open>ConstructConst\<close> (not in the sources), as instances of the
  protocol for the four constant operators.
\<close>

definition ConstructNull ::
  "nat \<Rightarrow> ('d, 'p) Env \<Rightarrow> ('d, 'p, 'o) Factory \<Rightarrow> 'o \<Rightarrow> PrivateID
     \<Rightarrow> (GroupID outcome \<times> ('d, 'p, 'o) Factory \<times> 'o) option" where
  "ConstructNull n env f w typ = Construct n env f w \<lparr>op = NullOp, privateID = typ, children = []\<rparr>"

definition ConstructTrue ::
  "nat \<Rightarrow> ('d, 'p) Env \<Rightarrow> ('d, 'p, 'o) Factory \<Rightarrow> 'o
     \<Rightarrow> (GroupID outcome \<times> ('d, 'p, 'o) Factory \<times> 'o) option" where
  "ConstructTrue n env f w = Construct n env f w \<lparr>op = TrueOp, privateID = 0, children = []\<rparr>"

definition ConstructFalse ::
  "nat \<Rightarrow> ('d, 'p) Env \<Rightarrow> ('d, 'p, 'o) Factory \<Rightarrow> 'o
     \<Rightarrow> (GroupID outcome \<times> ('d, 'p, 'o) Factory \<times> 'o) option" where
  "ConstructFalse n env f w = Construct n env f w \<lparr>op = FalseOp, privateID = 0, children = []\<rparr>"

definition ConstructConst ::
  "nat \<Rightarrow> ('d, 'p) Env \<Rightarrow> ('d, 'p, 'o) Factory \<Rightarrow> 'o \<Rightarrow> PrivateID
     \<Rightarrow> (GroupID outcome \<times> ('d, 'p, 'o) Factory \<times> 'o) option" where
  "ConstructConst n env f w d = Construct n env f w \<lparr>op = ConstOp, privateID = d, children = []\<rparr>"

text \<open>
  \<open>ConstructConstVal\<close>, with the tests of the source in their order. The type
  assertion \<open>d.(*tree.DBool)\<close> succeeds for the nil pointer too, and \<open>*boolVal\<close> then
  panics with a nil pointer dereference, before anything is constructed.
\<close>

fun ConstructConstVal ::
  "nat \<Rightarrow> ('d, 'p) Env \<Rightarrow> ('d, 'p, 'o) Factory \<Rightarrow> 'o \<Rightarrow> 'd Datum
     \<Rightarrow> (GroupID outcome \<times> ('d, 'p, 'o) Factory \<times> 'o) option" where
  "ConstructConstVal n env f w DNull =
     (case InternType f Unknown of (typ, f1) \<Rightarrow> ConstructNull n env f1 w typ)"
| "ConstructConstVal n env f w (DBool None) = Some (Panic NilPointerDereference, f, w)"
| "ConstructConstVal n env f w (DBool (Some boolVal)) =
     (if boolVal then ConstructTrue n env f w else ConstructFalse n env f w)"
| "ConstructConstVal n env f w d =
     (case InternDatum f d of (h, f1) \<Rightarrow> ConstructConst n env f1 w h)"

subsection \<open>Placeholder rebinding\<close>

text \<open>
  Modelled from the spec: the generated walk \<open>assignPlaceholders\<close> (not in the
  sources). A placeholder leaf is replaced by the constant built from its assigned value;
  any other expression has its children rebuilt, left to right, and is then constructed
  again through the protocol. An invalid group and a placeholder without a value are
  faults. The walk carries fuel as \<open>Construct\<close> does.
\<close>

definition placeholderValue :: "('d, 'p, 'o) Factory \<Rightarrow> Expr \<Rightarrow> 'd Datum option" where
  "placeholderValue f e =
     (case payloadOf (privateStorage (mem f)) (privateID e) of
        Some (PlaceholderPrivate i) \<Rightarrow> map_of (placeholders (evalCtx f)) i
      | _ \<Rightarrow> None)"

fun assignPlaceholders ::
  "nat \<Rightarrow> ('d, 'p) Env \<Rightarrow> ('d, 'p, 'o) Factory \<Rightarrow> 'o \<Rightarrow> GroupID
     \<Rightarrow> (GroupID outcome \<times> ('d, 'p, 'o) Factory \<times> 'o) option"
and assignChildren ::
  "nat \<Rightarrow> ('d, 'p) Env \<Rightarrow> ('d, 'p, 'o) Factory \<Rightarrow> 'o \<Rightarrow> GroupID list
     \<Rightarrow> (GroupID list outcome \<times> ('d, 'p, 'o) Factory \<times> 'o) option"
where
  "assignPlaceholders 0 env f w g = None"
| "assignPlaceholders (Suc n) env f w g =
     (case NormExpr (mem f) g of
        None \<Rightarrow> Some (Panic (InvalidGroup g), f, w)
      | Some e \<Rightarrow>
          if op e = PlaceholderOp then
            (case placeholderValue f e of
               None \<Rightarrow> Some (Panic (UnboundPlaceholder (privateID e)), f, w)
             | Some d \<Rightarrow> ConstructConstVal n env f w d)
          else
            (case assignChildren n env f w (children e) of
               None \<Rightarrow> None
             | Some (Panic flt, f1, w1) \<Rightarrow> Some (Panic flt, f1, w1)
             | Some (Ok gs, f1, w1) \<Rightarrow> Construct n env f1 w1 (e\<lparr>children := gs\<rparr>)))"
| "assignChildren 0 env f w cs = None"
| "assignChildren (Suc n) env f w [] = Some (Ok [], f, w)"
| "assignChildren (Suc n) env f w (c # cs) =
     (case assignPlaceholders n env f w c of
        None \<Rightarrow> None
      | Some (Panic flt, f1, w1) \<Rightarrow> Some (Panic flt, f1, w1)
      | Some (Ok g, f1, w1) \<Rightarrow>
          (case assignChildren n env f1 w1 cs of
             None \<Rightarrow> None
           | Some (Panic flt, f2, w2) \<Rightarrow> Some (Panic flt, f2, w2)
           | Some (Ok gs, f2, w2) \<Rightarrow> Some (Ok (g # gs), f2, w2)))"

text \<open>
  \<open>AssignPlaceholders\<close>: rebuild from the root group, then \<open>SetRoot\<close> with the rebuilt
  root and \<open>RootProps()\<close>, the root properties the memo holds at that moment.
\<close>

definition AssignPlaceholders ::
  "nat \<Rightarrow> ('d, 'p) Env \<Rightarrow> ('d, 'p, 'o) Factory \<Rightarrow> 'o
     \<Rightarrow> (unit outcome \<times> ('d, 'p, 'o) Factory \<times> 'o) option" where
  "AssignPlaceholders n env f w =
     (case assignPlaceholders n env f w (RootGroup (mem f)) of
        None \<Rightarrow> None
      | Some (Panic flt, f1, w1) \<Rightarrow> Some (Panic flt, f1, w1)
      | Some (Ok root, f1, w1) \<Rightarrow>
          Some (Ok (), f1\<lparr>mem := SetRoot (mem f1) root (RootProps (mem f1))\<rparr>, w1))"

subsection \<open>Sequences of calls on one factory\<close>




subsection \<open>What a construction leaves unchanged\<close>

text \<open>
  Three relations between the factory before and after a call: the root of the memo
  (group and properties) is the same, the cycle-guard stack holds the same fingerprints,
  and every fingerprint that the index of the memo mapped to a group is still mapped to
  that group.
\<close>

definition keepsIndex :: "('d, 'p, 'o) Factory \<Rightarrow> ('d, 'p, 'o) Factory \<Rightarrow> bool" where
  "keepsIndex f f' \<longleftrightarrow>
     (\<forall>fp g. GroupByFingerprint (mem f) fp = Some g \<longrightarrow> GroupByFingerprint (mem f') fp = Some g)"

definition sameRoot :: "('d, 'p, 'o) Factory \<Rightarrow> ('d, 'p, 'o) Factory \<Rightarrow> bool" where
  "sameRoot f f' \<longleftrightarrow> rootGroup (mem f') = rootGroup (mem f) \<and> rootProps (mem f') = rootProps (mem f)"

definition sameStack :: "('d, 'p, 'o) Factory \<Rightarrow> ('d, 'p, 'o) Factory \<Rightarrow> bool" where
  "sameStack f f' \<longleftrightarrow> elems (stack (ruleCycles f')) = elems (stack (ruleCycles f))"

subsection \<open>A concrete configuration\<close>

text \<open>
  An unchecked build with no rules, and a freshly initialised factory; the concrete
  instances below are evaluated on them.
\<close>

definition exampleEnv :: "(nat, nat) Env" where
  "exampleEnv = \<lparr>RaceEnabled = False, checkExpr = (\<lambda>ev. None),
     buildProps = (\<lambda>ctx m e. length (children e)), rules = (\<lambda>opr. []),
     growslice = (\<lambda>n. 2 * n)\<rparr>"

definition exampleFactory :: "(nat, nat, nat) Factory" where
  "exampleFactory = \<lparr>evalCtx = \<lparr>placeholders = []\<rparr>, mem = Memo_Init, matchedRule = None,
     appliedRule = None, ruleCycles = \<lparr>stack = NilSlice\<rparr>\<rparr>"

text \<open>
  A catalog with one rule, tagged for cycle detection, that rewrites the operator 1 into
  the operator 2 over the operator 1 itself: building the replacement constructs the
  expression being rewritten. \<open>usedFactory\<close> is a factory after use, with a memo, both
  callbacks installed (the first disables every rule) and a fingerprint on the stack.
\<close>

definition cycRule :: "(nat, nat) Rule" where
  "cycRule = \<lparr>ruleName = 1, detectCycles = True,
     matchRule = (\<lambda>m e. if op e = OtherOp 1
        then Some (Build (OtherOp 2) None [Build (OtherOp 1) None []]) else None)\<rparr>"


definition usedFactory :: "(nat, nat, nat) Factory" where
  "usedFactory =
     \<lparr>evalCtx = \<lparr>placeholders = [(0, DOther 42)]\<rparr>,
      mem = \<lparr>groups = [\<lparr>exprs = [\<lparr>op = TrueOp, privateID = 0, children = []\<rparr>], logical = 0\<rparr>],
             exprMap = [(Fingerprint TrueOp 0 [], 1)],
             listStorage = [[1]], privateStorage = [TypePrivate Unknown],
             rootGroup = 1, rootProps = Some 0\<rparr>,
      matchedRule = Some (\<lambda>name w. (False, w)),
      appliedRule = Some (\<lambda>name g ord added w. Suc w),
      ruleCycles = \<lparr>stack = Slice [Fingerprint (OtherOp 1) 0 []] 4\<rparr>\<rparr>"



text \<open>
  A prepared statement: the root (group 2) is an operator over a placeholder (group 1),
  placeholder 0 has the value 42, and the logical property derived for an expression is
  the number of placeholders beneath it. \<open>preparedFactory\<close> holds the memo before
  rebinding, with the root's properties installed as root properties;
  \<open>reboundFactory\<close> is the factory after rebinding.
\<close>

definition prepEnv :: "(nat, nat) Env" where
  "prepEnv = \<lparr>RaceEnabled = False, checkExpr = (\<lambda>ev. None),
     buildProps = (\<lambda>ctx m e. if op e = PlaceholderOp then 1
        else sum_list (map (\<lambda>c. case Properties m c of Inr p \<Rightarrow> p | Inl flt \<Rightarrow> 0) (children e))),
     rules = (\<lambda>opr. []), growslice = (\<lambda>n. 2 * n)\<rparr>"

definition preparedFactory :: "(nat, nat, nat) Factory" where
  "preparedFactory =
     \<lparr>evalCtx = \<lparr>placeholders = [(0, DOther 42)]\<rparr>,
      mem = \<lparr>groups =
               [\<lparr>exprs = [\<lparr>op = PlaceholderOp, privateID = 1, children = []\<rparr>], logical = 1\<rparr>,
                \<lparr>exprs = [\<lparr>op = OtherOp 9, privateID = 0, children = [1]\<rparr>], logical = 1\<rparr>],
             exprMap = [(Fingerprint (OtherOp 9) 0 [1], 2), (Fingerprint PlaceholderOp 1 [], 1)],
             listStorage = [], privateStorage = [PlaceholderPrivate 0],
             rootGroup = 2, rootProps = Some 1\<rparr>,
      matchedRule = None, appliedRule = None, ruleCycles = \<lparr>stack = NilSlice\<rparr>\<rparr>"

definition reboundFactory :: "(nat, nat, nat) Factory" where
  "reboundFactory =
     \<lparr>evalCtx = \<lparr>placeholders = [(0, DOther 42)]\<rparr>,
      mem = \<lparr>groups =
               [\<lparr>exprs = [\<lparr>op = PlaceholderOp, privateID = 1, children = []\<rparr>], logical = 1\<rparr>,
                \<lparr>exprs = [\<lparr>op = OtherOp 9, privateID = 0, children = [1]\<rparr>], logical = 1\<rparr>,
                \<lparr>exprs = [\<lparr>op = ConstOp, privateID = 2, children = []\<rparr>], logical = 0\<rparr>,
                \<lparr>exprs = [\<lparr>op = OtherOp 9, privateID = 0, children = [3]\<rparr>], logical = 0\<rparr>],
             exprMap = [(Fingerprint (OtherOp 9) 0 [3], 4), (Fingerprint ConstOp 2 [], 3),
                        (Fingerprint (OtherOp 9) 0 [1], 2), (Fingerprint PlaceholderOp 1 [], 1)],
             listStorage = [], privateStorage = [PlaceholderPrivate 0, DatumPrivate (DOther 42)],
             rootGroup = 4, rootProps = Some 1\<rparr>,
      matchedRule = None, appliedRule = None, ruleCycles = \<lparr>stack = NilSlice\<rparr>\<rparr>"

section \<open>Properties of the rule cycle guard\<close>

lemma detectCycle_loop_iff: "detectCycle_loop xs f \<longleftrightarrow> f \<in> set xs"
  by (induction xs) auto

text \<open>
  Claim C2. \<open>detectCycle fp\<close> is true exactly when \<open>fp\<close> equals one of the fingerprints
  on the stack; on an empty stack, nil or not, it is false for every fingerprint.
\<close>

theorem detectCycle_iff_on_stack:
  "(detectCycle rc fp \<longleftrightarrow> fp \<in> set (elems (stack rc)))
   \<and> detectCycle \<lparr>stack = NilSlice\<rparr> fp = False
   \<and> detectCycle \<lparr>stack = Slice [] c\<rparr> fp = False"
  by (simp add: detectCycle_def detectCycle_loop_iff)

lemma elems_push: "elems (stack (push grow rc fp)) = elems (stack rc) @ [fp]"
  by (cases "stack rc") (auto simp: push_def)

lemma len_push: "len (stack (push grow rc fp)) = Suc (len (stack rc))"
  by (simp add: len_def elems_push)

lemma pop_push_elems:
  "\<exists>rc'. pop (push grow rc fp) = Inr rc' \<and> elems (stack rc') = elems (stack rc)"
  by (cases "stack rc") (auto simp: pop_def push_def len_def)

lemma pop_push_exact:
  "stack rc = Slice xs c \<Longrightarrow> length xs < c \<Longrightarrow> pop (push grow rc fp) = Inr rc"
  by (auto simp: pop_def push_def len_def)

lemma pop_Inr:
  "0 < len (stack rc) \<Longrightarrow>
   \<exists>rc'. pop rc = Inr rc' \<and> elems (stack rc') = butlast (elems (stack rc))"
  by (auto simp: pop_def len_def butlast_conv_take)

lemma pop_Inl_iff: "pop rc = Inl SliceBoundsOutOfRange \<longleftrightarrow> len (stack rc) = 0"
  by (auto simp: pop_def)

lemma pop_Inr_iff: "(\<exists>rc'. pop rc = Inr rc') \<longleftrightarrow> 0 < len (stack rc)"
  by (auto simp: pop_def)

lemma run_balanced:
  "balanced d ops \<Longrightarrow> d \<le> len (stack rc) \<Longrightarrow> \<exists>rc'. run grow ops rc = Inr rc'"
proof (induction d ops arbitrary: rc rule: balanced.induct)
  case (1 d)
  then show ?case by simp
next
  case (2 d f ops)
  then show ?case by (simp add: len_push)
next
  case (3 ops)
  then show ?case by simp
next
  case (4 d ops)
  then have "0 < len (stack rc)" by simp
  from pop_Inr [OF this] obtain rc' where
    p: "pop rc = Inr rc'" and e: "elems (stack rc') = butlast (elems (stack rc))" by blast
  have "d \<le> len (stack rc')" using 4(3) e by (simp add: len_def)
  with 4 p show ?case by simp
qed

lemma run_matched:
  "matched d ops \<Longrightarrow> d \<le> len (stack rc) \<Longrightarrow>
   \<exists>rc'. run grow ops rc = Inr rc' \<and>
         elems (stack rc') = take (len (stack rc) - d) (elems (stack rc))"
proof (induction d ops arbitrary: rc rule: matched.induct)
  case (1 d)
  then show ?case by (simp add: len_def)
next
  case (2 d f ops)
  have "Suc d \<le> len (stack (push grow rc f))" using 2(3) by (simp add: len_push)
  from 2(1) [OF _ this] 2(2) obtain rc' where
    r: "run grow ops (push grow rc f) = Inr rc'" and
    e: "elems (stack rc') =
        take (len (stack (push grow rc f)) - Suc d) (elems (stack (push grow rc f)))"
    by auto
  have "take (len (stack (push grow rc f)) - Suc d) (elems (stack (push grow rc f)))
        = take (len (stack rc) - d) (elems (stack rc))"
    by (simp add: len_push elems_push) (simp add: len_def)
  with r e show ?case by simp
next
  case (3 ops)
  then show ?case by simp
next
  case (4 d ops)
  then have "0 < len (stack rc)" by simp
  from pop_Inr [OF this] obtain rc' where
    p: "pop rc = Inr rc'" and e: "elems (stack rc') = butlast (elems (stack rc))" by blast
  have "d \<le> len (stack rc')" using 4(3) e by (simp add: len_def)
  from 4(1) [OF _ this] 4(2) obtain rc'' where
    r: "run grow ops rc' = Inr rc''" and
    e2: "elems (stack rc'') = take (len (stack rc') - d) (elems (stack rc'))" by auto
  have "take (len (stack rc') - d) (elems (stack rc'))
        = take (len (stack rc) - Suc d) (elems (stack rc))"
    using e 4(3) by (simp add: len_def butlast_conv_take min_def)
  with r e2 p show ?case by simp
qed

text \<open>
  Claim C3. Push and pop are symmetric: after \<open>push fp\<close>, \<open>pop\<close> succeeds and the stack
  holds the same fingerprints as before, so that \<open>detectCycle\<close> answers as before; it is
  the very same slice when the backing array had room for the pushed element (otherwise
  \<open>append\<close> has moved it to a larger array). Hence a sequence of pushes and pops in which
  every push is matched by a later pop runs without a panic and leaves the fingerprints
  on the stack as they were; started on an empty stack, it ends on an empty stack.
\<close>

theorem push_pop_symmetric:
  "(\<exists>rc'. pop (push grow rc fp) = Inr rc' \<and> elems (stack rc') = elems (stack rc)
          \<and> (\<forall>fp'. detectCycle rc' fp' = detectCycle rc fp'))
   \<and> (\<forall>xs c. stack rc = Slice xs c \<and> length xs < c \<longrightarrow> pop (push grow rc fp) = Inr rc)
   \<and> (matched 0 ops \<longrightarrow>
        (\<exists>rc'. run grow ops rc = Inr rc' \<and> elems (stack rc') = elems (stack rc)
               \<and> (len (stack rc) = 0 \<longrightarrow> len (stack rc') = 0)))"
proof -
  have "\<exists>rc'. run grow ops rc = Inr rc' \<and> elems (stack rc') = elems (stack rc)
          \<and> (len (stack rc) = 0 \<longrightarrow> len (stack rc') = 0)" if "matched 0 ops"
    using run_matched [OF that, of rc grow] by (auto simp: len_def)
  moreover have "\<exists>rc'. pop (push grow rc fp) = Inr rc' \<and> elems (stack rc') = elems (stack rc)
          \<and> (\<forall>fp'. detectCycle rc' fp' = detectCycle rc fp')"
    using pop_push_elems [of grow rc fp] by (auto simp: detectCycle_def)
  ultimately show ?thesis
    using pop_push_exact [of rc _ _ grow fp] by blast
qed

theorem push_pop_symmetric_witness:
  "matched 0 [Push (Fingerprint (OtherOp 1) 0 [2, 3]), Push (Fingerprint TrueOp 0 []), Pop, Pop]
   \<and> (\<exists>rc'. run (\<lambda>n. 2 * n)
          [Push (Fingerprint (OtherOp 1) 0 [2, 3]), Push (Fingerprint TrueOp 0 []), Pop, Pop]
          \<lparr>stack = NilSlice\<rparr> = Inr rc' \<and> elems (stack rc') = [] \<and> len (stack rc') = 0)
   \<and> pop (push (\<lambda>n. 2 * n) \<lparr>stack = Slice [Fingerprint FalseOp 0 []] 2\<rparr> (Fingerprint TrueOp 0 []))
     = Inr \<lparr>stack = Slice [Fingerprint FalseOp 0 []] 2\<rparr>"
  using push_pop_symmetric [of "\<lambda>n. 2 * n" "\<lparr>stack = NilSlice\<rparr>" "Fingerprint TrueOp 0 []"
      "[Push (Fingerprint (OtherOp 1) 0 [2, 3]), Push (Fingerprint TrueOp 0 []), Pop, Pop]"]
    push_pop_symmetric [of "\<lambda>n. 2 * n" "\<lparr>stack = Slice [Fingerprint FalseOp 0 []] 2\<rparr>"
      "Fingerprint TrueOp 0 []" "[]"]
  by (simp add: len_def)

text \<open>
  Claim C8. \<open>pop\<close> needs a non-empty stack: on an empty stack (nil or not) the slice
  expression is out of bounds and \<open>pop\<close> panics, on any other stack it returns. Under
  the balance discipline, where every pop has a matching unpopped push before it, no
  operation of the sequence panics.
\<close>

theorem pop_requires_nonempty:
  "(pop rc = Inl SliceBoundsOutOfRange \<longleftrightarrow> len (stack rc) = 0)
   \<and> ((\<exists>rc'. pop rc = Inr rc') \<longleftrightarrow> 0 < len (stack rc))
   \<and> (balanced 0 ops \<longrightarrow> (\<exists>rc'. run grow ops rc = Inr rc'))"
  using run_balanced [of 0 ops rc grow] pop_Inl_iff [of rc] pop_Inr_iff [of rc] by blast

theorem pop_requires_nonempty_witness:
  "balanced 0 [Push (Fingerprint TrueOp 0 []), Pop, Push (Fingerprint FalseOp 0 [])]
   \<and> (\<exists>rc'. run (\<lambda>n. Suc n) [Push (Fingerprint TrueOp 0 []), Pop, Push (Fingerprint FalseOp 0 [])]
               \<lparr>stack = NilSlice\<rparr> = Inr rc')
   \<and> pop \<lparr>stack = NilSlice\<rparr> = Inl SliceBoundsOutOfRange
   \<and> pop \<lparr>stack = Slice [] 8\<rparr> = Inl SliceBoundsOutOfRange"
  using pop_requires_nonempty [of "\<lparr>stack = NilSlice\<rparr>"
      "[Push (Fingerprint TrueOp 0 []), Pop, Push (Fingerprint FalseOp 0 [])]" "\<lambda>n. Suc n"]
    pop_requires_nonempty [of "\<lparr>stack = Slice [] 8\<rparr>" "[]" "\<lambda>n. Suc n"]
  by (simp add: len_def)

section \<open>Initialisation\<close>

lemma selectRule_no_callback:
  "matchedRule f = None \<Longrightarrow> snd (selectRule rs f w e) = w"
  by (induction rs) (auto split: option.splits)

lemma ruleCycles_init_elems: "elems (stack (ruleCycles_init rc)) = []"
  by (cases "stack rc") (auto simp: ruleCycles_init_def)

lemma ruleCycles_init_cap: "cap (stack (ruleCycles_init rc)) = cap (stack rc)"
  by (cases "stack rc") (auto simp: ruleCycles_init_def)

lemma ruleCycles_init_nil: "stack (ruleCycles_init rc) = NilSlice \<longleftrightarrow> stack rc = NilSlice"
  by (cases "stack rc") (auto simp: ruleCycles_init_def)

lemma detectCycle_Init: "\<not> detectCycle (ruleCycles (Init f ctx)) fp"
  by (simp add: Init_def detectCycle_def ruleCycles_init_elems)

lemma selectRule_Init_match:
  "matchRule r Memo_Init e = Some repl \<Longrightarrow>
   selectRule (r # rs) (Init f ctx) w e = (Some (r, repl), w)"
  using detectCycle_Init [of f ctx "fingerprint e"] by (simp add: Init_def)

lemma selectRule_Init_no_match:
  "matchRule r Memo_Init e = None \<Longrightarrow>
   selectRule (r # rs) (Init f ctx) w e = selectRule rs (Init f ctx) w e"
  by (simp add: Init_def)

text \<open>
  Claim C10. \<open>Init\<close> resets the state of the factory: the evaluation context is the one
  given, the memo is blank (no group, no fingerprint in its index), both callbacks are
  nil, the cycle-guard stack has length zero, so that \<open>detectCycle\<close> is false for every
  fingerprint, and the stack keeps the backing array it had (same capacity, nil exactly
  when it was nil): nothing is allocated. With the callbacks nil no callback is called
  (the observer state is unchanged) and all rules apply by default: the first rule of
  the catalog that matches is selected, none is skipped by a callback or by the guard.
\<close>

theorem Init_resets_factory:
  "evalCtx (Init f ctx) = ctx
   \<and> mem (Init f ctx) = Memo_Init
   \<and> GroupCount (mem (Init f ctx)) = 0
   \<and> GroupByFingerprint (mem (Init f ctx)) fp = None
   \<and> matchedRule (Init f ctx) = None
   \<and> appliedRule (Init f ctx) = None
   \<and> len (stack (ruleCycles (Init f ctx))) = 0
   \<and> (\<forall>fp. \<not> detectCycle (ruleCycles (Init f ctx)) fp)
   \<and> cap (stack (ruleCycles (Init f ctx))) = cap (stack (ruleCycles f))
   \<and> (stack (ruleCycles (Init f ctx)) = NilSlice \<longleftrightarrow> stack (ruleCycles f) = NilSlice)
   \<and> snd (selectRule rs (Init f ctx) w e) = w
   \<and> snd (snd (afterRule env r (Init f ctx) w g)) = w
   \<and> (\<forall>repl. matchRule r Memo_Init e = Some repl \<longrightarrow>
         selectRule (r # rs) (Init f ctx) w e = (Some (r, repl), w))
   \<and> (matchRule r Memo_Init e = None \<longrightarrow>
         selectRule (r # rs) (Init f ctx) w e = selectRule rs (Init f ctx) w e)
   \<and> selectRule [] (Init f ctx) w e = (None, w)"
proof -
  have m: "matchedRule (Init f ctx) = None" by (simp add: Init_def)
  have a: "snd (snd (afterRule env r (Init f ctx) w g)) = w"
    by (simp add: afterRule_def Init_def split: option.splits)
  have b: "evalCtx (Init f ctx) = ctx \<and> mem (Init f ctx) = Memo_Init
     \<and> GroupCount (mem (Init f ctx)) = 0 \<and> GroupByFingerprint (mem (Init f ctx)) fp = None"
    by (simp add: Init_def Memo_Init_def GroupCount_def GroupByFingerprint_def)
  have c: "matchedRule (Init f ctx) = None \<and> appliedRule (Init f ctx) = None
     \<and> len (stack (ruleCycles (Init f ctx))) = 0
     \<and> (\<forall>fp. \<not> detectCycle (ruleCycles (Init f ctx)) fp)
     \<and> cap (stack (ruleCycles (Init f ctx))) = cap (stack (ruleCycles f))
     \<and> (stack (ruleCycles (Init f ctx)) = NilSlice \<longleftrightarrow> stack (ruleCycles f) = NilSlice)"
    by (simp add: Init_def len_def detectCycle_def ruleCycles_init_elems ruleCycles_init_cap
        ruleCycles_init_nil)
  have d: "\<forall>repl. matchRule r Memo_Init e = Some repl \<longrightarrow>
         selectRule (r # rs) (Init f ctx) w e = (Some (r, repl), w)"
    using selectRule_Init_match [of r e _ rs f ctx w] by blast
  have e: "matchRule r Memo_Init e = None \<longrightarrow>
         selectRule (r # rs) (Init f ctx) w e = selectRule rs (Init f ctx) w e"
    using selectRule_Init_no_match [of r e rs f ctx w] by blast
  have n: "selectRule [] (Init f ctx) w e = (None, w)" by simp
  from a b c d e n selectRule_no_callback [OF m, of rs w e] show ?thesis by blast
qed

theorem Init_resets_factory_witness:
  "matchRule cycRule Memo_Init \<lparr>op = OtherOp 1, privateID = 0, children = []\<rparr>
     = Some (Build (OtherOp 2) None [Build (OtherOp 1) None []])
   \<and> selectRule [cycRule] usedFactory 0 \<lparr>op = OtherOp 1, privateID = 0, children = []\<rparr> = (None, 0)
   \<and> selectRule [cycRule] (Init usedFactory \<lparr>placeholders = []\<rparr>) 0
        \<lparr>op = OtherOp 1, privateID = 0, children = []\<rparr>
      = (Some (cycRule, Build (OtherOp 2) None [Build (OtherOp 1) None []]), 0)
   \<and> matchRule cycRule Memo_Init \<lparr>op = TrueOp, privateID = 0, children = []\<rparr> = None
   \<and> selectRule [cycRule] (Init usedFactory \<lparr>placeholders = []\<rparr>) 0
        \<lparr>op = TrueOp, privateID = 0, children = []\<rparr> = (None, 0)
   \<and> GroupCount (mem usedFactory) = 1
   \<and> mem (Init usedFactory \<lparr>placeholders = []\<rparr>) = Memo_Init
   \<and> evalCtx (Init usedFactory \<lparr>placeholders = []\<rparr>) = \<lparr>placeholders = []\<rparr>
   \<and> stack (ruleCycles (Init usedFactory \<lparr>placeholders = []\<rparr>)) = Slice [] 4"
  using Init_resets_factory [of usedFactory "\<lparr>placeholders = []\<rparr>" _ "[]" 0
      "\<lparr>op = OtherOp 1, privateID = 0, children = []\<rparr>" _ cycRule]
    Init_resets_factory [of usedFactory "\<lparr>placeholders = []\<rparr>" _ "[]" 0
      "\<lparr>op = TrueOp, privateID = 0, children = []\<rparr>" _ cycRule]
  by (simp add: usedFactory_def cycRule_def ruleCycles_init_def Init_def GroupCount_def)

section \<open>Interning\<close>

lemma indexOf_Some_nth: "indexOf p tbl = Some i \<Longrightarrow> i < length tbl \<and> tbl ! i = p"
  by (induction tbl arbitrary: i) (auto split: if_splits)

lemma indexOf_None_iff: "indexOf p tbl = None \<longleftrightarrow> p \<notin> set tbl"
  by (induction tbl) auto

lemma indexOf_append_mem: "p \<in> set tbl \<Longrightarrow> indexOf p (tbl @ ys) = indexOf p tbl"
  by (induction tbl) auto

lemma indexOf_append_new: "p \<notin> set tbl \<Longrightarrow> indexOf p (tbl @ [p]) = Some (length tbl)"
  by (induction tbl) auto

lemma intern_hit: "p \<in> set tbl \<Longrightarrow> snd (intern tbl p) = tbl"
  by (auto simp: intern_def indexOf_None_iff split: option.splits)

lemma intern_payloadOf: "payloadOf (snd (intern tbl p)) (fst (intern tbl p)) = Some p"
  by (auto simp: intern_def payloadOf_def dest: indexOf_Some_nth split: option.splits)

lemma intern_indexOf: "indexOf p (snd (intern tbl p)) = Some (fst (intern tbl p) - 1)"
  by (auto simp: intern_def indexOf_None_iff indexOf_append_new split: option.splits)

lemma intern_extends: "\<exists>ys. snd (intern tbl p) = tbl @ ys"
  by (auto simp: intern_def split: option.splits)

lemma internAll_extends: "\<exists>ys. internAll tbl ps = tbl @ ys"
proof (induction ps arbitrary: tbl)
  case Nil
  then show ?case by simp
next
  case (Cons p ps)
  from intern_extends [of tbl p] obtain ys where a: "snd (intern tbl p) = tbl @ ys" ..
  from Cons [of "snd (intern tbl p)"] obtain zs where
    "internAll (snd (intern tbl p)) ps = snd (intern tbl p) @ zs" ..
  with a show ?case by simp
qed

lemma indexOf_mem: "indexOf p tbl = Some i \<Longrightarrow> p \<in> set tbl"
  using indexOf_None_iff [of p tbl] by auto

lemma intern_twice:
  "intern (snd (intern tbl p)) p = (fst (intern tbl p), snd (intern tbl p))"
  using intern_indexOf [of p tbl]
  by (cases "intern tbl p") (auto simp: intern_def split: option.splits)

lemma intern_fst_pos: "0 < fst (intern tbl p)"
  by (auto simp: intern_def split: option.splits)

lemma intern_later:
  assumes "t2 = internAll (snd (intern tbl p)) qs"
  shows "fst (intern t2 p) = fst (intern tbl p) \<and> snd (intern t2 p) = t2"
proof -
  from internAll_extends [of "snd (intern tbl p)" qs] assms
  obtain ys where e: "t2 = snd (intern tbl p) @ ys" by auto
  have m: "p \<in> set (snd (intern tbl p))" using intern_indexOf [of p tbl] indexOf_mem by fast
  have "indexOf p t2 = Some (fst (intern tbl p) - 1)"
    using e indexOf_append_mem [OF m] intern_indexOf [of p tbl] by simp
  then show ?thesis using intern_fst_pos [of tbl p] by (simp add: intern_def)
qed

lemma payloadOf_append: "payloadOf tbl h = Some p \<Longrightarrow> payloadOf (tbl @ ys) h = Some p"
  by (auto simp: payloadOf_def nth_append split: if_splits)

lemma intern_handles_injective:
  assumes "t2 = internAll (snd (intern tbl p)) qs"
  shows "fst (intern t2 q) = fst (intern tbl p) \<longleftrightarrow> q = p"
proof
  assume h: "fst (intern t2 q) = fst (intern tbl p)"
  from internAll_extends [of "snd (intern tbl p)" qs] assms
  obtain ys where e: "t2 = snd (intern tbl p) @ ys" by auto
  from intern_extends [of t2 q] obtain zs where e2: "snd (intern t2 q) = t2 @ zs" ..
  have "payloadOf (snd (intern t2 q)) (fst (intern tbl p)) = Some p"
    using intern_payloadOf [of tbl p] e e2 payloadOf_append by (metis append.assoc)
  moreover have "payloadOf (snd (intern t2 q)) (fst (intern t2 q)) = Some q"
    by (rule intern_payloadOf)
  ultimately show "q = p" using h by simp
next
  assume "q = p"
  then show "fst (intern t2 q) = fst (intern tbl p)" using intern_later [OF assms] by simp
qed

text \<open>
  Claim C6. Interning is idempotent. \<open>InternList\<close> is the memo's interning of the list;
  the handle returned always resolves to the payload; a payload already in the table
  leaves the table as it is; once a payload has been interned, interning it again, after
  any number of other payloads, returns the same handle and does not grow the table; and
  a later payload gets that handle exactly when it is equal to the first one.
\<close>

theorem intern_idempotent:
  "fst (InternList f items) = fst (intern (listStorage (mem f)) items)
   \<and> listStorage (mem (snd (InternList f items))) = snd (intern (listStorage (mem f)) items)
   \<and> InternList (snd (InternList f items)) items = InternList f items
   \<and> payloadOf (snd (intern tbl p)) (fst (intern tbl p)) = Some p
   \<and> (p \<in> set tbl \<longrightarrow> snd (intern tbl p) = tbl)
   \<and> intern (internAll (snd (intern tbl p)) qs) p
       = (fst (intern tbl p), internAll (snd (intern tbl p)) qs)
   \<and> (fst (intern (internAll (snd (intern tbl p)) qs) q) = fst (intern tbl p) \<longleftrightarrow> q = p)"
proof -
  have a: "fst (InternList f items) = fst (intern (listStorage (mem f)) items)"
    by (simp add: InternList_def Memo_InternList_def split: prod.splits)
  have b: "listStorage (mem (snd (InternList f items))) = snd (intern (listStorage (mem f)) items)"
    by (simp add: InternList_def Memo_InternList_def split: prod.splits)
  have c: "InternList (snd (InternList f items)) items = InternList f items"
    using intern_twice [of "listStorage (mem f)" items]
    by (auto simp: InternList_def Memo_InternList_def split: prod.splits)
  have d: "intern (internAll (snd (intern tbl p)) qs) p
       = (fst (intern tbl p), internAll (snd (intern tbl p)) qs)"
    using intern_later [OF refl, of tbl p qs] by (simp add: prod_eq_iff)
  show ?thesis
    using a b c d intern_payloadOf [of tbl p] intern_hit [of p tbl]
      intern_handles_injective [OF refl, of tbl p qs q]
    by blast
qed

theorem intern_idempotent_witness:
  "[2, 3] \<in> set [[1], [2, 3::nat]]
   \<and> intern [[1], [2, 3::nat]] [2, 3] = (2, [[1], [2, 3]])
   \<and> intern (internAll (snd (intern [[1::nat]] [2, 3])) [[4], [1]]) [2, 3] = (2, [[1], [2, 3], [4]])
   \<and> fst (intern (internAll (snd (intern [[1::nat]] [2, 3])) [[4], [1]]) [4]) \<noteq> 2"
  using intern_idempotent [of exampleFactory "[]" "[[1], [2, 3::nat]]" "[2, 3]" "[]" "[]"]
    intern_idempotent [of exampleFactory "[]" "[[1::nat]]" "[2, 3]" "[[4], [1]]" "[4]"]
  by (simp add: intern_def)

section \<open>Memoization in \<open>onConstruct\<close>\<close>

lemma Memoize_registers:
  "GroupByFingerprint (ev_mem (MemoizeNormExpr bp ctx m e)) (fingerprint e)
     = Some (ev_group (MemoizeNormExpr bp ctx m e))"
  by (auto simp: MemoizeNormExpr_def GroupByFingerprint_def Let_def split: option.splits)





text \<open>
  Claim C7. The consistency check is gated by the build flag. In the unchecked build
  \<open>onConstruct\<close> does not depend on \<open>checkExpr\<close> at all and returns the group of the
  memoized expression; in the checked build it runs the check on that expression and
  panics with its fault when it fails, and otherwise returns what the unchecked build
  returns. The memo it leaves behind is the same in both builds.
\<close>

theorem onConstruct_check_gated:
  "onConstruct (env\<lparr>RaceEnabled := False, checkExpr := c\<rparr>) f e
     = onConstruct (env\<lparr>RaceEnabled := False\<rparr>) f e
   \<and> onConstruct (env\<lparr>RaceEnabled := False\<rparr>) f e
     = (Ok (ev_group (MemoizeNormExpr (buildProps env) (evalCtx f) (mem f) e)),
        f\<lparr>mem := ev_mem (MemoizeNormExpr (buildProps env) (evalCtx f) (mem f) e)\<rparr>)
   \<and> onConstruct (env\<lparr>RaceEnabled := True\<rparr>) f e
     = (case checkExpr env (MemoizeNormExpr (buildProps env) (evalCtx f) (mem f) e) of
          None \<Rightarrow> onConstruct (env\<lparr>RaceEnabled := False\<rparr>) f e
        | Some flt \<Rightarrow> (Panic flt, snd (onConstruct (env\<lparr>RaceEnabled := False\<rparr>) f e)))
   \<and> snd (onConstruct (env\<lparr>RaceEnabled := True\<rparr>) f e)
     = snd (onConstruct (env\<lparr>RaceEnabled := False\<rparr>) f e)"
  by (simp add: onConstruct_def Let_def split: option.splits)

section \<open>The construction protocol\<close>

lemma selectRule_disabled:
  "matchedRule f = Some (\<lambda>name w. (False, w)) \<Longrightarrow> selectRule rs f w e = (None, w)"
  by (induction rs) auto

text \<open>
  Claim C5. \<open>DisableOptimizations\<close> installs a \<open>matchedRule\<close> callback that returns false
  for every rule name (and has no effect of its own). Then no rule is selected, whatever
  the catalog, and with any fuel left \<open>Construct\<close> returns what \<open>onConstruct\<close> returns
  for the expression as given; the observer state is unchanged, so no \<open>appliedRule\<close>
  notification has been sent, whatever callback is installed for it.
\<close>

theorem DisableOptimizations_skips_rules:
  "matchedRule (DisableOptimizations f) = Some (\<lambda>name w. (False, w))
   \<and> selectRule rs (DisableOptimizations f) w e = (None, w)
   \<and> Construct (Suc n) env (DisableOptimizations f) w e
     = Some (fst (onConstruct env (DisableOptimizations f) e),
             snd (onConstruct env (DisableOptimizations f) e), w)"
proof -
  have m: "matchedRule (DisableOptimizations f) = Some (\<lambda>name w. (False, w))"
    by (simp add: DisableOptimizations_def NotifyOnMatchedRule_def)
  show ?thesis
    using m selectRule_disabled [OF m] by (simp split: prod.splits)
qed

section \<open>What the protocol preserves\<close>

text \<open>
  No construction touches the root of the memo: \<open>Construct\<close>, and the building of a
  rule's replacement, leave the root group and the root properties as they were.
\<close>

lemma sameRoot_refl: "sameRoot f f"
  by (simp add: sameRoot_def)

lemma sameRoot_trans: "sameRoot f g \<Longrightarrow> sameRoot g h \<Longrightarrow> sameRoot f h"
  by (simp add: sameRoot_def)

lemma sameRoot_ruleCycles: "sameRoot f (f\<lparr>ruleCycles := rc\<rparr>)"
  by (simp add: sameRoot_def)

lemma sameRoot_ruleCycles': "sameRoot f g \<Longrightarrow> sameRoot f (g\<lparr>ruleCycles := rc\<rparr>)"
  by (simp add: sameRoot_def)

lemma sameRoot_ruleCycles'': "sameRoot (f\<lparr>ruleCycles := rc\<rparr>) g \<Longrightarrow> sameRoot f g"
  by (simp add: sameRoot_def)

lemma onConstruct_sameRoot: "onConstruct env f e = (res, f') \<Longrightarrow> sameRoot f f'"
  by (auto simp: onConstruct_def MemoizeNormExpr_def sameRoot_def Let_def
      split: option.splits if_splits)

lemma internPayload_sameRoot: "internPayload f p = (h, f') \<Longrightarrow> sameRoot f f'"
  by (auto simp: internPayload_def Memo_InternPrivate_def sameRoot_def split: option.splits prod.splits)

lemma afterRule_sameRoot: "afterRule env r f w g = (res, f', w') \<Longrightarrow> f' = f"
  by (auto simp: afterRule_def Let_def split: option.splits if_splits)

lemma Construct_step_sameRoot:
  assumes IH: "\<And>(f :: ('d, 'p, 'o) Factory) w r res f' w'. build n env f w r = Some (res, f', w') \<Longrightarrow> sameRoot f f'"
    and C: "Construct (Suc n) env (f :: ('d, 'p, 'o) Factory) w e = Some (res, f', w')"
  shows "sameRoot f f'"
proof (cases "selectRule (rules env (op e)) f w e")
  case (Pair sel w1)
  show ?thesis
  proof (cases sel)
    case None
    with Pair C show ?thesis
      by (auto simp: split: prod.splits dest: onConstruct_sameRoot)
  next
    case (Some rr)
    obtain r repl where rr: "rr = (r, repl)" by (cases rr)
    show ?thesis
    proof (cases "detectCycles r")
      case True
      let ?f1 = "f\<lparr>ruleCycles := push (growslice env) (ruleCycles f) (fingerprint e)\<rparr>"
      from C Pair Some rr True obtain res2 f2 w2 where
        b: "build n env ?f1 w1 repl = Some (res2, f2, w2)"
        by (auto split: option.splits)
      have s2: "sameRoot f f2" using IH [OF b] by (rule sameRoot_ruleCycles'')
      from C Pair Some rr True b show ?thesis
        using s2 by (auto split: sum.splits outcome.splits
            dest!: afterRule_sameRoot intro: sameRoot_ruleCycles')
    next
      case False
      from C Pair Some rr False obtain res2 f2 w2 where
        b: "build n env f w1 repl = Some (res2, f2, w2)"
        by (auto split: option.splits)
      from C Pair Some rr False b show ?thesis
        using IH [OF b] by (auto split: outcome.splits dest!: afterRule_sameRoot)
    qed
  qed
qed

lemma build_step_sameRoot:
  assumes IHC: "\<And>(f :: ('d, 'p, 'o) Factory) w e res f' w'. Construct n env f w e = Some (res, f', w') \<Longrightarrow> sameRoot f f'"
    and IHL: "\<And>(f :: ('d, 'p, 'o) Factory) w rs res f' w'. buildList n env f w rs = Some (res, f', w') \<Longrightarrow> sameRoot f f'"
    and B: "build (Suc n) env (f :: ('d, 'p, 'o) Factory) w r = Some (res, f', w')"
  shows "sameRoot f f'"
proof (cases r)
  case (Existing g)
  with B show ?thesis by (simp add: sameRoot_refl)
next
  case (Build opr payload rs)
  from B Build obtain res1 f1 w1 where l: "buildList n env f w rs = Some (res1, f1, w1)"
    by (auto split: option.splits)
  note s1 = IHL [OF l]
  show ?thesis
  proof (cases res1)
    case (Panic flt)
    with B Build l s1 show ?thesis by simp
  next
    case (Ok gs)
    obtain h f2 where ip: "internPayload f1 payload = (h, f2)" by (cases "internPayload f1 payload")
    from B Build l Ok ip have
      "Construct n env f2 w1 \<lparr>op = opr, privateID = h, children = gs\<rparr> = Some (res, f', w')"
      by simp
    from IHC [OF this] internPayload_sameRoot [OF ip] s1 show ?thesis
      by (blast intro: sameRoot_trans)
  qed
qed

lemma buildList_step_sameRoot:
  assumes IHB: "\<And>(f :: ('d, 'p, 'o) Factory) w r res f' w'. build n env f w r = Some (res, f', w') \<Longrightarrow> sameRoot f f'"
    and IHL: "\<And>(f :: ('d, 'p, 'o) Factory) w rs res f' w'. buildList n env f w rs = Some (res, f', w') \<Longrightarrow> sameRoot f f'"
    and B: "buildList (Suc n) env (f :: ('d, 'p, 'o) Factory) w rs = Some (res, f', w')"
  shows "sameRoot f f'"
proof (cases rs)
  case Nil
  with B show ?thesis by (simp add: sameRoot_refl)
next
  case (Cons r rs')
  from B Cons obtain res1 f1 w1 where b: "build n env f w r = Some (res1, f1, w1)"
    by (auto split: option.splits)
  note s1 = IHB [OF b]
  show ?thesis
  proof (cases res1)
    case (Panic flt)
    with B Cons b s1 show ?thesis by simp
  next
    case (Ok g)
    from B Cons b Ok obtain res2 f2 w2 where l: "buildList n env f1 w1 rs' = Some (res2, f2, w2)"
      by (auto split: option.splits)
    from B Cons b Ok l have "f' = f2" by (auto split: outcome.splits)
    with IHL [OF l] s1 show ?thesis by (blast intro: sameRoot_trans)
  qed
qed

lemma protocol_sameRoot:
  "(\<forall>(f :: ('d, 'p, 'o) Factory) w e res f' w'.
      Construct n env f w e = Some (res, f', w') \<longrightarrow> sameRoot f f')
   \<and> (\<forall>(f :: ('d, 'p, 'o) Factory) w r res f' w'.
      build n env f w r = Some (res, f', w') \<longrightarrow> sameRoot f f')
   \<and> (\<forall>(f :: ('d, 'p, 'o) Factory) w rs res f' w'.
      buildList n env f w rs = Some (res, f', w') \<longrightarrow> sameRoot f f')"
proof (induction n)
  case 0
  show ?case by simp
next
  case (Suc n)
  from Suc have C: "\<And>(f :: ('d, 'p, 'o) Factory) w e res f' w'.
      Construct n env f w e = Some (res, f', w') \<Longrightarrow> sameRoot f f'"
    by blast
  from Suc have B: "\<And>(f :: ('d, 'p, 'o) Factory) w r res f' w'.
      build n env f w r = Some (res, f', w') \<Longrightarrow> sameRoot f f'"
    by blast
  from Suc have L: "\<And>(f :: ('d, 'p, 'o) Factory) w rs res f' w'.
      buildList n env f w rs = Some (res, f', w') \<Longrightarrow> sameRoot f f'"
    by blast
  show ?case
  proof (intro conjI allI impI)
    fix f :: "('d, 'p, 'o) Factory" and w e res f' w'
    assume a: "Construct (Suc n) env f w e = Some (res, f', w')"
    show "sameRoot f f'" by (rule Construct_step_sameRoot [of n env f w e res f' w', OF B a])
  next
    fix f :: "('d, 'p, 'o) Factory" and w r res f' w'
    assume a: "build (Suc n) env f w r = Some (res, f', w')"
    show "sameRoot f f'" by (rule build_step_sameRoot [of n env f w r res f' w', OF C L a])
  next
    fix f :: "('d, 'p, 'o) Factory" and w rs res f' w'
    assume a: "buildList (Suc n) env f w rs = Some (res, f', w')"
    show "sameRoot f f'" by (rule buildList_step_sameRoot [of n env f w rs res f' w', OF B L a])
  qed
qed

lemma Construct_sameRoot: "Construct n env f w e = Some (res, f', w') \<Longrightarrow> sameRoot f f'"
  by (rule protocol_sameRoot [THEN conjunct1, rule_format])

text \<open>
  Every construction that returns, with a group or with a panic, leaves on the
  cycle-guard stack the fingerprints it found there: each push of a guarded rule is
  undone by its pop, and that pop never finds the stack empty.
\<close>

lemma sameStack_refl: "sameStack f f"
  by (simp add: sameStack_def)

lemma sameStack_trans: "sameStack f g \<Longrightarrow> sameStack g h \<Longrightarrow> sameStack f h"
  by (simp add: sameStack_def)

lemma onConstruct_sameStack: "onConstruct env f e = (res, f') \<Longrightarrow> sameStack f f'"
  by (auto simp: onConstruct_def sameStack_def Let_def split: option.splits if_splits)

lemma internPayload_sameStack: "internPayload f p = (h, f') \<Longrightarrow> sameStack f f'"
  by (auto simp: internPayload_def sameStack_def split: option.splits prod.splits)

lemma pop_after_push:
  assumes "elems (stack rc2) = elems (stack rc) @ [fp]"
  shows "\<exists>rc'. pop rc2 = Inr rc' \<and> elems (stack rc') = elems (stack rc)"
proof -
  have "0 < len (stack rc2)" using assms by (simp add: len_def)
  from pop_Inr [OF this] assms show ?thesis by auto
qed

lemma Construct_step_sameStack:
  assumes IH: "\<And>(f :: ('d, 'p, 'o) Factory) w r res f' w'.
      build n env f w r = Some (res, f', w') \<Longrightarrow> sameStack f f'"
    and C: "Construct (Suc n) env (f :: ('d, 'p, 'o) Factory) w e = Some (res, f', w')"
  shows "sameStack f f'"
proof (cases "selectRule (rules env (op e)) f w e")
  case (Pair sel w1)
  show ?thesis
  proof (cases sel)
    case None
    with Pair C show ?thesis
      by (auto split: prod.splits dest: onConstruct_sameStack)
  next
    case (Some rr)
    obtain r repl where rr: "rr = (r, repl)" by (cases rr)
    show ?thesis
    proof (cases "detectCycles r")
      case True
      let ?f1 = "f\<lparr>ruleCycles := push (growslice env) (ruleCycles f) (fingerprint e)\<rparr>"
      from C Pair Some rr True obtain res2 f2 w2 where
        b: "build n env ?f1 w1 repl = Some (res2, f2, w2)"
        by (auto split: option.splits)
      from IH [OF b] have "elems (stack (ruleCycles f2))
          = elems (stack (ruleCycles f)) @ [fingerprint e]"
        by (simp add: sameStack_def elems_push)
      from pop_after_push [OF this] obtain rc where
        p: "pop (ruleCycles f2) = Inr rc" and
        e: "elems (stack rc) = elems (stack (ruleCycles f))" by blast
      from C Pair Some rr True b p have "f' = f2\<lparr>ruleCycles := rc\<rparr>"
        by (auto split: outcome.splits dest!: afterRule_sameRoot)
      with e show ?thesis by (simp add: sameStack_def)
    next
      case False
      from C Pair Some rr False obtain res2 f2 w2 where
        b: "build n env f w1 repl = Some (res2, f2, w2)"
        by (auto split: option.splits)
      from C Pair Some rr False b show ?thesis
        using IH [OF b] by (auto split: outcome.splits dest!: afterRule_sameRoot)
    qed
  qed
qed

lemma build_step_sameStack:
  assumes IHC: "\<And>(f :: ('d, 'p, 'o) Factory) w e res f' w'.
      Construct n env f w e = Some (res, f', w') \<Longrightarrow> sameStack f f'"
    and IHL: "\<And>(f :: ('d, 'p, 'o) Factory) w rs res f' w'.
      buildList n env f w rs = Some (res, f', w') \<Longrightarrow> sameStack f f'"
    and B: "build (Suc n) env (f :: ('d, 'p, 'o) Factory) w r = Some (res, f', w')"
  shows "sameStack f f'"
proof (cases r)
  case (Existing g)
  with B show ?thesis by (simp add: sameStack_refl)
next
  case (Build opr payload rs)
  from B Build obtain res1 f1 w1 where l: "buildList n env f w rs = Some (res1, f1, w1)"
    by (auto split: option.splits)
  note s1 = IHL [OF l]
  show ?thesis
  proof (cases res1)
    case (Panic flt)
    with B Build l s1 show ?thesis by simp
  next
    case (Ok gs)
    obtain h f2 where ip: "internPayload f1 payload = (h, f2)" by (cases "internPayload f1 payload")
    from B Build l Ok ip have
      "Construct n env f2 w1 \<lparr>op = opr, privateID = h, children = gs\<rparr> = Some (res, f', w')"
      by simp
    from IHC [OF this] internPayload_sameStack [OF ip] s1 show ?thesis
      by (blast intro: sameStack_trans)
  qed
qed

lemma buildList_step_sameStack:
  assumes IHB: "\<And>(f :: ('d, 'p, 'o) Factory) w r res f' w'.
      build n env f w r = Some (res, f', w') \<Longrightarrow> sameStack f f'"
    and IHL: "\<And>(f :: ('d, 'p, 'o) Factory) w rs res f' w'.
      buildList n env f w rs = Some (res, f', w') \<Longrightarrow> sameStack f f'"
    and B: "buildList (Suc n) env (f :: ('d, 'p, 'o) Factory) w rs = Some (res, f', w')"
  shows "sameStack f f'"
proof (cases rs)
  case Nil
  with B show ?thesis by (simp add: sameStack_refl)
next
  case (Cons r rs')
  from B Cons obtain res1 f1 w1 where b: "build n env f w r = Some (res1, f1, w1)"
    by (auto split: option.splits)
  note s1 = IHB [OF b]
  show ?thesis
  proof (cases res1)
    case (Panic flt)
    with B Cons b s1 show ?thesis by simp
  next
    case (Ok g)
    from B Cons b Ok obtain res2 f2 w2 where l: "buildList n env f1 w1 rs' = Some (res2, f2, w2)"
      by (auto split: option.splits)
    from B Cons b Ok l have "f' = f2" by (auto split: outcome.splits)
    with IHL [OF l] s1 show ?thesis by (blast intro: sameStack_trans)
  qed
qed

lemma protocol_sameStack:
  "(\<forall>(f :: ('d, 'p, 'o) Factory) w e res f' w'.
      Construct n env f w e = Some (res, f', w') \<longrightarrow> sameStack f f')
   \<and> (\<forall>(f :: ('d, 'p, 'o) Factory) w r res f' w'.
      build n env f w r = Some (res, f', w') \<longrightarrow> sameStack f f')
   \<and> (\<forall>(f :: ('d, 'p, 'o) Factory) w rs res f' w'.
      buildList n env f w rs = Some (res, f', w') \<longrightarrow> sameStack f f')"
proof (induction n)
  case 0
  show ?case by simp
next
  case (Suc n)
  from Suc have C: "\<And>(f :: ('d, 'p, 'o) Factory) w e res f' w'.
      Construct n env f w e = Some (res, f', w') \<Longrightarrow> sameStack f f'"
    by blast
  from Suc have B: "\<And>(f :: ('d, 'p, 'o) Factory) w r res f' w'.
      build n env f w r = Some (res, f', w') \<Longrightarrow> sameStack f f'"
    by blast
  from Suc have L: "\<And>(f :: ('d, 'p, 'o) Factory) w rs res f' w'.
      buildList n env f w rs = Some (res, f', w') \<Longrightarrow> sameStack f f'"
    by blast
  show ?case
  proof (intro conjI allI impI)
    fix f :: "('d, 'p, 'o) Factory" and w e res f' w'
    assume a: "Construct (Suc n) env f w e = Some (res, f', w')"
    show "sameStack f f'"
      by (rule Construct_step_sameStack [of n env f w e res f' w', OF B a])
  next
    fix f :: "('d, 'p, 'o) Factory" and w r res f' w'
    assume a: "build (Suc n) env f w r = Some (res, f', w')"
    show "sameStack f f'"
      by (rule build_step_sameStack [of n env f w r res f' w', OF C L a])
  next
    fix f :: "('d, 'p, 'o) Factory" and w rs res f' w'
    assume a: "buildList (Suc n) env f w rs = Some (res, f', w')"
    show "sameStack f f'"
      by (rule buildList_step_sameStack [of n env f w rs res f' w', OF B L a])
  qed
qed

lemma Construct_preserves_stack:
  "Construct n env f w e = Some (res, f', w') \<Longrightarrow>
   elems (stack (ruleCycles f')) = elems (stack (ruleCycles f))"
  using protocol_sameStack [THEN conjunct1, rule_format, of n env f w e res f' w']
  by (simp add: sameStack_def)

section \<open>Constant values\<close>

lemma Construct_no_rules:
  "rules env (op e) = [] \<Longrightarrow>
   Construct (Suc n) env f w e = Some (fst (onConstruct env f e), snd (onConstruct env f e), w)"
  by (simp split: prod.splits)

lemma onConstruct_unchecked:
  "\<not> RaceEnabled env \<Longrightarrow>
   \<exists>g f'. onConstruct env f e = (Ok g, f') \<and> GroupByFingerprint (mem f') (fingerprint e) = Some g"
  using Memoize_registers [of "buildProps env" "evalCtx f" "mem f" e]
  by (simp add: onConstruct_def Let_def)

lemma Construct_literal:
  assumes "rules env opr = []" and "\<not> RaceEnabled env"
  shows "\<exists>g f'. Construct (Suc n) env f w \<lparr>op = opr, privateID = h, children = []\<rparr> = Some (Ok g, f', w)
           \<and> GroupByFingerprint (mem f') (Fingerprint opr h []) = Some g"
proof -
  let ?e = "\<lparr>op = opr, privateID = h, children = []\<rparr>"
  from onConstruct_unchecked [OF assms(2), of f ?e] obtain g f' where
    o: "onConstruct env f ?e = (Ok g, f')" and
    i: "GroupByFingerprint (mem f') (fingerprint ?e) = Some g" by blast
  have "Construct (Suc n) env f w ?e = Some (Ok g, f', w)"
    using Construct_no_rules [of env ?e n f w] assms(1) o by simp
  with i show ?thesis by (simp add: fingerprint_def)
qed

lemma InternType_payload:
  "payloadOf (privateStorage (mem (snd (InternType f t)))) (fst (InternType f t))
     = Some (TypePrivate t)"
  using intern_payloadOf [of "privateStorage (mem f)" "TypePrivate t"]
  by (auto simp: InternType_def Memo_InternPrivate_def split: prod.splits)

lemma InternDatum_payload:
  "payloadOf (privateStorage (mem (snd (InternDatum f d)))) (fst (InternDatum f d))
     = Some (DatumPrivate d)"
  using intern_payloadOf [of "privateStorage (mem f)" "DatumPrivate d"]
  by (auto simp: InternDatum_def Memo_InternPrivate_def split: prod.splits)

text \<open>
  Claim C9, as stated, fails: there is a datum that falls outside the four outcomes. For
  the nil \<open>*tree.DBool\<close> the call panics on the dereference; what it returns is none of
  the four constructions.
\<close>

theorem ConstructConstVal_nil_bool_counterexample:
  "ConstructConstVal 1 exampleEnv exampleFactory 0 (DBool None)
     = Some (Panic NilPointerDereference, exampleFactory, 0)
   \<and> ConstructConstVal 1 exampleEnv exampleFactory 0 (DBool None)
     \<noteq> ConstructNull 1 exampleEnv (snd (InternType exampleFactory Unknown)) 0
         (fst (InternType exampleFactory Unknown))
   \<and> ConstructConstVal 1 exampleEnv exampleFactory 0 (DBool None)
     \<noteq> ConstructTrue 1 exampleEnv exampleFactory 0
   \<and> ConstructConstVal 1 exampleEnv exampleFactory 0 (DBool None)
     \<noteq> ConstructFalse 1 exampleEnv exampleFactory 0
   \<and> ConstructConstVal 1 exampleEnv exampleFactory 0 (DBool None)
     \<noteq> ConstructConst 1 exampleEnv (snd (InternDatum exampleFactory (DBool None))) 0
         (fst (InternDatum exampleFactory (DBool None)))"
  by (simp add: exampleEnv_def ConstructNull_def ConstructTrue_def ConstructFalse_def
      ConstructConst_def onConstruct_def Let_def split: prod.splits)

text \<open>
  Claim C9, amended. \<open>ConstructConstVal\<close> splits on its datum: the null datum constructs
  the Null operator over the interned type Unknown, a boolean datum that points to true
  the True operator, one that points to false the False operator, the nil boolean
  pointer makes it panic before anything is constructed, and any other datum constructs
  the Const operator over the interned datum; every call has one of these five
  outcomes. Where no rule rewrites these operators (and the build is unchecked) each of
  the four constructions returns a group that the memo indexes under the fingerprint of
  that operator.
\<close>

theorem ConstructConstVal_cases:
  "ConstructConstVal n env f w DNull
     = ConstructNull n env (snd (InternType f Unknown)) w (fst (InternType f Unknown))
   \<and> payloadOf (privateStorage (mem (snd (InternType f Unknown)))) (fst (InternType f Unknown))
     = Some (TypePrivate Unknown)
   \<and> ConstructConstVal n env f w (DBool (Some True)) = ConstructTrue n env f w
   \<and> ConstructConstVal n env f w (DBool (Some False)) = ConstructFalse n env f w
   \<and> ConstructConstVal n env f w (DBool None) = Some (Panic NilPointerDereference, f, w)
   \<and> ConstructConstVal n env f w (DOther x)
     = ConstructConst n env (snd (InternDatum f (DOther x))) w (fst (InternDatum f (DOther x)))
   \<and> payloadOf (privateStorage (mem (snd (InternDatum f (DOther x))))) (fst (InternDatum f (DOther x)))
     = Some (DatumPrivate (DOther x))
   \<and> (ConstructConstVal n env f w d
         = ConstructNull n env (snd (InternType f Unknown)) w (fst (InternType f Unknown))
       \<or> ConstructConstVal n env f w d = ConstructTrue n env f w
       \<or> ConstructConstVal n env f w d = ConstructFalse n env f w
       \<or> ConstructConstVal n env f w d = Some (Panic NilPointerDereference, f, w)
       \<or> ConstructConstVal n env f w d
         = ConstructConst n env (snd (InternDatum f d)) w (fst (InternDatum f d)))
   \<and> (rules env NullOp = [] \<and> rules env TrueOp = [] \<and> rules env FalseOp = []
        \<and> rules env ConstOp = [] \<and> \<not> RaceEnabled env \<longrightarrow>
      (\<exists>g f'. ConstructConstVal (Suc n) env f w DNull = Some (Ok g, f', w)
          \<and> GroupByFingerprint (mem f') (Fingerprint NullOp (fst (InternType f Unknown)) []) = Some g)
      \<and> (\<exists>g f'. ConstructConstVal (Suc n) env f w (DBool (Some True)) = Some (Ok g, f', w)
          \<and> GroupByFingerprint (mem f') (Fingerprint TrueOp 0 []) = Some g)
      \<and> (\<exists>g f'. ConstructConstVal (Suc n) env f w (DBool (Some False)) = Some (Ok g, f', w)
          \<and> GroupByFingerprint (mem f') (Fingerprint FalseOp 0 []) = Some g)
      \<and> (\<exists>g f'. ConstructConstVal (Suc n) env f w (DOther x) = Some (Ok g, f', w)
          \<and> GroupByFingerprint (mem f') (Fingerprint ConstOp (fst (InternDatum f (DOther x))) [])
              = Some g))"
proof -
  have e1: "ConstructConstVal n env f w DNull
     = ConstructNull n env (snd (InternType f Unknown)) w (fst (InternType f Unknown))" for n
    by (simp split: prod.splits)
  have e2: "ConstructConstVal n env f w (DOther x)
     = ConstructConst n env (snd (InternDatum f (DOther x))) w (fst (InternDatum f (DOther x)))"
    for n x
    by (simp split: prod.splits)
  have ex: "ConstructConstVal n env f w d
         = ConstructNull n env (snd (InternType f Unknown)) w (fst (InternType f Unknown))
       \<or> ConstructConstVal n env f w d = ConstructTrue n env f w
       \<or> ConstructConstVal n env f w d = ConstructFalse n env f w
       \<or> ConstructConstVal n env f w d = Some (Panic NilPointerDereference, f, w)
       \<or> ConstructConstVal n env f w d
         = ConstructConst n env (snd (InternDatum f d)) w (fst (InternDatum f d))"
  proof (cases d)
    case DNull
    then show ?thesis using e1 by simp
  next
    case (DBool b)
    then show ?thesis by (cases b) auto
  next
    case (DOther y)
    then show ?thesis using e2 by simp
  qed
  have lit: "(\<exists>g f'. ConstructConstVal (Suc n) env f w DNull = Some (Ok g, f', w)
          \<and> GroupByFingerprint (mem f') (Fingerprint NullOp (fst (InternType f Unknown)) []) = Some g)
      \<and> (\<exists>g f'. ConstructConstVal (Suc n) env f w (DBool (Some True)) = Some (Ok g, f', w)
          \<and> GroupByFingerprint (mem f') (Fingerprint TrueOp 0 []) = Some g)
      \<and> (\<exists>g f'. ConstructConstVal (Suc n) env f w (DBool (Some False)) = Some (Ok g, f', w)
          \<and> GroupByFingerprint (mem f') (Fingerprint FalseOp 0 []) = Some g)
      \<and> (\<exists>g f'. ConstructConstVal (Suc n) env f w (DOther x) = Some (Ok g, f', w)
          \<and> GroupByFingerprint (mem f') (Fingerprint ConstOp (fst (InternDatum f (DOther x))) [])
              = Some g)"
    if r: "rules env NullOp = []" "rules env TrueOp = []" "rules env FalseOp = []"
      "rules env ConstOp = []" and u: "\<not> RaceEnabled env"
    unfolding e1 e2 ConstructConstVal.simps(3) if_True if_False
      ConstructNull_def ConstructConst_def ConstructTrue_def ConstructFalse_def
    by (intro conjI Construct_literal r u)
  show ?thesis
    using e1 e2 ex lit InternType_payload [of f Unknown] InternDatum_payload [of f "DOther x"]
    by simp
qed

theorem ConstructConstVal_cases_witness:
  "rules exampleEnv NullOp = [] \<and> rules exampleEnv TrueOp = [] \<and> rules exampleEnv FalseOp = []
   \<and> rules exampleEnv ConstOp = [] \<and> \<not> RaceEnabled exampleEnv
   \<and> fst (the (ConstructConstVal 1 exampleEnv exampleFactory 0 DNull)) = Ok 1
   \<and> GroupByFingerprint (mem (fst (snd (the (ConstructConstVal 1 exampleEnv exampleFactory 0 DNull)))))
        (Fingerprint NullOp 1 []) = Some 1
   \<and> GroupByFingerprint
        (mem (fst (snd (the (ConstructConstVal 1 exampleEnv exampleFactory 0 (DBool (Some True)))))))
        (Fingerprint TrueOp 0 []) = Some 1
   \<and> GroupByFingerprint (mem (fst (snd (the (ConstructConstVal 1 exampleEnv exampleFactory 0 (DOther 7))))))
        (Fingerprint ConstOp 1 []) = Some 1
   \<and> privateStorage (mem (fst (snd (the (ConstructConstVal 1 exampleEnv exampleFactory 0 (DOther 7))))))
        = [DatumPrivate (DOther 7)]
   \<and> fst (the (ConstructConstVal 1 exampleEnv exampleFactory 0 (DBool None)))
        = Panic NilPointerDereference"
  using ConstructConstVal_cases [of 0 exampleEnv exampleFactory 0 7 DNull]
  by (simp add: exampleEnv_def exampleFactory_def InternType_def InternDatum_def
      Memo_InternPrivate_def intern_def Memo_Init_def ConstructNull_def ConstructTrue_def
      ConstructConst_def onConstruct_def MemoizeNormExpr_def GroupByFingerprint_def
      fingerprint_def Let_def)

section \<open>Placeholder rebinding\<close>

lemma InternType_sameRoot: "InternType f t = (h, f') \<Longrightarrow> sameRoot f f'"
  by (auto simp: InternType_def Memo_InternPrivate_def sameRoot_def split: prod.splits)

lemma InternDatum_sameRoot: "InternDatum f d = (h, f') \<Longrightarrow> sameRoot f f'"
  by (auto simp: InternDatum_def Memo_InternPrivate_def sameRoot_def split: prod.splits)

lemma ConstructConstVal_sameRoot:
  assumes "ConstructConstVal n env f w d = Some (res, f', w')"
  shows "sameRoot f f'"
proof (cases d)
  case DNull
  obtain h f1 where i: "InternType f Unknown = (h, f1)" by (cases "InternType f Unknown")
  with assms DNull have "Construct n env f1 w \<lparr>op = NullOp, privateID = h, children = []\<rparr>
      = Some (res, f', w')"
    by (simp add: ConstructNull_def)
  from Construct_sameRoot [OF this] InternType_sameRoot [OF i] show ?thesis
    by (rule sameRoot_trans [rotated])
next
  case (DBool b)
  with assms show ?thesis
    by (cases b)
      (auto simp: ConstructTrue_def ConstructFalse_def sameRoot_refl split: if_splits
        dest: Construct_sameRoot)
next
  case (DOther x)
  obtain h f1 where i: "InternDatum f (DOther x) = (h, f1)" by (cases "InternDatum f (DOther x)")
  with assms DOther have "Construct n env f1 w \<lparr>op = ConstOp, privateID = h, children = []\<rparr>
      = Some (res, f', w')"
    by (simp add: ConstructConst_def)
  from Construct_sameRoot [OF this] InternDatum_sameRoot [OF i] show ?thesis
    by (rule sameRoot_trans [rotated])
qed

lemma assignPlaceholders_step_sameRoot:
  assumes IH: "\<And>(f :: ('d, 'p, 'o) Factory) w cs res f' w'.
      assignChildren n env f w cs = Some (res, f', w') \<Longrightarrow> sameRoot f f'"
    and A: "assignPlaceholders (Suc n) env (f :: ('d, 'p, 'o) Factory) w g = Some (res, f', w')"
  shows "sameRoot f f'"
proof (cases "NormExpr (mem f) g")
  case None
  with A show ?thesis by (simp add: sameRoot_refl)
next
  case (Some e)
  show ?thesis
  proof (cases "op e = PlaceholderOp")
    case True
    with A Some show ?thesis
      by (auto simp: sameRoot_refl split: option.splits dest: ConstructConstVal_sameRoot)
  next
    case False
    from A Some False obtain res1 f1 w1 where
      c: "assignChildren n env f w (children e) = Some (res1, f1, w1)"
      by (auto split: option.splits)
    note s1 = IH [OF c]
    show ?thesis
    proof (cases res1)
      case (Panic flt)
      with A Some False c s1 show ?thesis by simp
    next
      case (Ok gs)
      with A Some False c have
        "Construct n env f1 w1 (e\<lparr>children := gs\<rparr>) = Some (res, f', w')" by simp
      from Construct_sameRoot [OF this] s1 show ?thesis by (rule sameRoot_trans [rotated])
    qed
  qed
qed

lemma assignChildren_step_sameRoot:
  assumes IHP: "\<And>(f :: ('d, 'p, 'o) Factory) w g res f' w'.
      assignPlaceholders n env f w g = Some (res, f', w') \<Longrightarrow> sameRoot f f'"
    and IHC: "\<And>(f :: ('d, 'p, 'o) Factory) w cs res f' w'.
      assignChildren n env f w cs = Some (res, f', w') \<Longrightarrow> sameRoot f f'"
    and A: "assignChildren (Suc n) env (f :: ('d, 'p, 'o) Factory) w cs = Some (res, f', w')"
  shows "sameRoot f f'"
proof (cases cs)
  case Nil
  with A show ?thesis by (simp add: sameRoot_refl)
next
  case (Cons c cs')
  from A Cons obtain res1 f1 w1 where b: "assignPlaceholders n env f w c = Some (res1, f1, w1)"
    by (auto split: option.splits)
  note s1 = IHP [OF b]
  show ?thesis
  proof (cases res1)
    case (Panic flt)
    with A Cons b s1 show ?thesis by simp
  next
    case (Ok g)
    from A Cons b Ok obtain res2 f2 w2 where
      l: "assignChildren n env f1 w1 cs' = Some (res2, f2, w2)"
      by (auto split: option.splits)
    from A Cons b Ok l have "f' = f2" by (auto split: outcome.splits)
    with IHC [OF l] s1 show ?thesis by (blast intro: sameRoot_trans)
  qed
qed

lemma walk_sameRoot:
  "(\<forall>(f :: ('d, 'p, 'o) Factory) w g res f' w'.
      assignPlaceholders n env f w g = Some (res, f', w') \<longrightarrow> sameRoot f f')
   \<and> (\<forall>(f :: ('d, 'p, 'o) Factory) w cs res f' w'.
      assignChildren n env f w cs = Some (res, f', w') \<longrightarrow> sameRoot f f')"
proof (induction n)
  case 0
  show ?case by simp
next
  case (Suc n)
  from Suc have P: "\<And>(f :: ('d, 'p, 'o) Factory) w g res f' w'.
      assignPlaceholders n env f w g = Some (res, f', w') \<Longrightarrow> sameRoot f f'"
    by blast
  from Suc have C: "\<And>(f :: ('d, 'p, 'o) Factory) w cs res f' w'.
      assignChildren n env f w cs = Some (res, f', w') \<Longrightarrow> sameRoot f f'"
    by blast
  show ?case
  proof (intro conjI allI impI)
    fix f :: "('d, 'p, 'o) Factory" and w g res f' w'
    assume a: "assignPlaceholders (Suc n) env f w g = Some (res, f', w')"
    show "sameRoot f f'"
      by (rule assignPlaceholders_step_sameRoot [of n env f w g res f' w', OF C a])
  next
    fix f :: "('d, 'p, 'o) Factory" and w cs res f' w'
    assume a: "assignChildren (Suc n) env f w cs = Some (res, f', w')"
    show "sameRoot f f'"
      by (rule assignChildren_step_sameRoot [of n env f w cs res f' w', OF P C a])
  qed
qed

lemma assignPlaceholders_sameRoot:
  "assignPlaceholders n env f w g = Some (res, f', w') \<Longrightarrow> sameRoot f f'"
  by (rule walk_sameRoot [THEN conjunct1, rule_format])

text \<open>
  The prepared statement is a state the factory reaches: initialise, intern the
  placeholder, construct the placeholder and the operator over it, and set the root to
  the operator's group with its properties.
\<close>

lemma preparedFactory_built:
  "(let f0 = Init exampleFactory \<lparr>placeholders = [(0, DOther 42)]\<rparr>;
        (h, m1) = Memo_InternPrivate (mem f0) (PlaceholderPrivate 0);
        (r1, f1) = onConstruct prepEnv (f0\<lparr>mem := m1\<rparr>)
                     \<lparr>op = PlaceholderOp, privateID = h, children = []\<rparr>;
        (r2, f2) = onConstruct prepEnv f1 \<lparr>op = OtherOp 9, privateID = 0, children = [1]\<rparr>
    in f2\<lparr>mem := SetRoot (mem f2) 2
              (case Properties (mem f2) 2 of Inr p \<Rightarrow> Some p | Inl flt \<Rightarrow> None)\<rparr>)
   = preparedFactory"
  by (simp add: Init_def exampleFactory_def prepEnv_def preparedFactory_def Memo_Init_def
      Memo_InternPrivate_def intern_def onConstruct_def MemoizeNormExpr_def
      GroupByFingerprint_def fingerprint_def ruleCycles_init_def SetRoot_def Properties_def
      groupAt_def Let_def)

text \<open>Rebinding the prepared statement, with fuel 4.\<close>

lemma rebound_eq:
  "AssignPlaceholders 4 prepEnv preparedFactory 0 = Some (Ok (), reboundFactory, 0)"
  by (simp add: AssignPlaceholders_def prepEnv_def preparedFactory_def reboundFactory_def
      eval_nat_numeral RootGroup_def RootProps_def SetRoot_def NormExpr_def groupAt_def
      placeholderValue_def payloadOf_def InternDatum_def Memo_InternPrivate_def intern_def
      ConstructConst_def onConstruct_def MemoizeNormExpr_def GroupByFingerprint_def
      fingerprint_def Properties_def Let_def)

text \<open>
  Claim C4, as stated, fails: the properties that \<open>AssignPlaceholders\<close> installs with
  \<open>SetRoot\<close> are not derived from the rebuilt root. In the prepared statement the
  rebuilt root is group 4, whose derived properties are 0 (no placeholder left), while
  the root properties after the call are still 1, those of the root before rebinding.
\<close>

theorem AssignPlaceholders_root_props_counterexample:
  "map_option (\<lambda>(res, f', w'). (res, RootGroup (mem f'), RootProps (mem f'),
        Properties (mem f') (RootGroup (mem f'))))
     (AssignPlaceholders 4 prepEnv preparedFactory 0) = Some (Ok (), 4, Some 1, Inr 0)
   \<and> Properties (mem preparedFactory) (RootGroup (mem preparedFactory)) = Inr 1"
  by (simp add: rebound_eq)
     (simp add: reboundFactory_def preparedFactory_def RootGroup_def RootProps_def
      Properties_def groupAt_def)

text \<open>
  Claim C4, amended. When \<open>AssignPlaceholders\<close> completes, the root of the memo is the
  group that the walk returned for the old root group, rebuilt through \<open>Construct\<close>,
  and the root properties are the ones the memo held before the call: \<open>SetRoot\<close> is
  given \<open>RootProps()\<close>, which no construction changes.
\<close>

theorem AssignPlaceholders_sets_root:
  assumes "AssignPlaceholders n env f w = Some (Ok (), f', w')"
  shows "\<exists>root f1. assignPlaceholders n env f w (RootGroup (mem f)) = Some (Ok root, f1, w')
           \<and> f' = f1\<lparr>mem := SetRoot (mem f1) root (RootProps (mem f))\<rparr>
           \<and> RootGroup (mem f') = root
           \<and> RootProps (mem f') = RootProps (mem f)"
proof -
  from assms obtain root f1 where
    a: "assignPlaceholders n env f w (RootGroup (mem f)) = Some (Ok root, f1, w')" and
    f': "f' = f1\<lparr>mem := SetRoot (mem f1) root (RootProps (mem f1))\<rparr>"
    by (auto simp: AssignPlaceholders_def split: option.splits outcome.splits)
  from assignPlaceholders_sameRoot [OF a] have "RootProps (mem f1) = RootProps (mem f)"
    by (simp add: sameRoot_def RootProps_def)
  with a f' show ?thesis by (simp add: SetRoot_def RootGroup_def RootProps_def)
qed

theorem AssignPlaceholders_sets_root_witness:
  "AssignPlaceholders 4 prepEnv preparedFactory 0 = Some (Ok (), reboundFactory, 0)
   \<and> RootGroup (mem reboundFactory) = 4
   \<and> RootProps (mem reboundFactory) = RootProps (mem preparedFactory)"
  using AssignPlaceholders_sets_root [OF rebound_eq] rebound_eq
  by (simp add: reboundFactory_def preparedFactory_def RootGroup_def RootProps_def)

section \<open>Deduplication across construction calls\<close>




lemma keepsIndex_ruleCycles: "keepsIndex f (f\<lparr>ruleCycles := rc\<rparr>)"
  by (simp add: keepsIndex_def)

























end
